theory Spec2Isabelle
  imports Complex_Main "HOL-Library.Multiset"
begin

section \<open>Soccer Math: the data model\<close>

text \<open>
  The component \<^verbatim>\<open>SoccerMathGame\<close> (the charge-and-release variant with the
  B\'ezier kick) keeps its state in React state cells and refs. The model is one record
  of these cells, and every handler is a function from the record to the updated record.
  The repository also holds a click-driven variant of the component; its
  \<^verbatim>\<open>generateQuestion\<close>, \<^verbatim>\<open>resetRound\<close> and \<^verbatim>\<open>startGame\<close>, the guard of its
  \<^verbatim>\<open>handleAnswer\<close> and its scoring are those modelled here, up to the coordinates
  of the ball and the kicker frame.
  JavaScript numbers hold small integers here (scores, indices, operands, the power
  value, which moves in steps of 4), modelled as \<open>int\<close>. A result of
  \<^verbatim>\<open>Math.random()\<close> is a double, modelled as the \<open>real\<close> it denotes, and the
  product \<^verbatim>\<open>Math.random() * n\<close> is rounded to a double before it is floored. The
  coordinates of the ball are modelled as \<open>real\<close>, read as exact arithmetic.
\<close>

datatype GameState = Menu | Playing | Finished

datatype Feedback = Correct | Incorrect

record Question =
  num1 :: int
  num2 :: int
  answer :: int
  options :: "int list"

text \<open>
  A kick that has been launched lives on as scheduled callbacks: the 100 ms timer that
  starts the ball animation, the animation frames, and the 1500 ms timer after the
  animation. The callbacks are closures of the render in which the kick was launched, so
  a kick carries the \<^verbatim>\<open>currentQuestion\<close> and \<^verbatim>\<open>questionIndex\<close> of that render
  (\<open>capturedQuestion\<close>, \<open>capturedIndex\<close>) besides its two arguments.
\<close>

datatype KickStage = Windup | Flying | Landed

record Kick =
  selectedAnswer :: int
  kIndex :: nat
  capturedQuestion :: "Question option"
  capturedIndex :: int
  stage :: KickStage

record Game =
  gameState :: GameState
  score :: int
  questionIndex :: int
  currentQuestion :: "Question option"
  ballPosition :: "real \<times> real"
  isKicking :: bool
  kickerFrame :: nat
  feedback :: "Feedback option"
  showKicker :: bool
  kickPower :: int
  activeTargetIndex :: nat
  isCharging :: bool
  chargeInterval :: bool
  showSidebar :: bool
  isPaused :: bool
  showHelp :: bool
  elapsedSeconds :: int
  ballStyle :: "(real \<times> real) option"
  kicks :: "Kick list"

text \<open>
  \<open>kickPower\<close> is \<^verbatim>\<open>kickPowerRef.current\<close>; \<open>chargeInterval\<close> says that
  \<^verbatim>\<open>chargeIntervalRef.current\<close> holds a running interval; \<open>ballStyle\<close> is the
  position that \<^verbatim>\<open>animateBall\<close> writes into the style of the ball element;
  \<open>kicks\<close> lists the launched kicks whose callbacks have not all fired, oldest first.
\<close>

definition QUESTION_COUNT :: int where
  "QUESTION_COUNT = 10"

definition ANIMATION_DURATION :: real where
  "ANIMATION_DURATION = 800"

definition GOAL_POSITIONS :: "(real \<times> real) list" where
  "GOAL_POSITIONS = [(40, 50), (65, 50), (90, 50)]"

definition initialGame :: Game where
  "initialGame =
     \<lparr>gameState = Menu, score = 0, questionIndex = 0, currentQuestion = None,
      ballPosition = (12, 58), isKicking = False, kickerFrame = 1, feedback = None,
      showKicker = True, kickPower = 0, activeTargetIndex = 0, isCharging = False,
      chargeInterval = False, showSidebar = False, isPaused = False, showHelp = False,
      elapsedSeconds = 0, ballStyle = None, kicks = []\<rparr>"

section \<open>Question generation\<close>

text \<open>
  \<^verbatim>\<open>Math.random()\<close> is an input of the program. One call of
  \<^verbatim>\<open>generateQuestion\<close> receives its random numbers as an \<open>Entropy\<close>: the list
  \<open>draws\<close> of the successive results of \<^verbatim>\<open>Math.random()\<close> used for the two
  operands and in the loop that looks for distractors, and \<open>shuffle\<close>, the effect of
  \<^verbatim>\<open>sort(() => Math.random() - 0.5)\<close> on the array of options. The loop of the
  source runs until it has found two distractors, which no bound on the number of draws
  guarantees; in the model the loop returns \<open>None\<close> when the draws are used up before
  that.
\<close>

record Entropy =
  draws :: "real list"
  shuffle :: "int list \<Rightarrow> int list"

text \<open>
  Doubles (IEEE 754 binary64) and rounding to nearest, ties to even. Between \<open>2\<^sup>e\<close>
  and \<open>2\<^sup>e\<^sup>+\<^sup>1\<close> the doubles are the multiples of \<open>2\<^sup>e\<^sup>-\<^sup>5\<^sup>2\<close>, and below
  \<open>2\<^sup>-\<^sup>1\<^sup>0\<^sup>2\<^sup>2\<close> the multiples of \<open>2\<^sup>-\<^sup>1\<^sup>0\<^sup>7\<^sup>4\<close>; \<open>ulp x\<close> is this spacing at
  \<open>x\<close>, found by going down from the largest exponent. Overflow is left out: the
  products rounded here are below 20.
\<close>

definition pow2 :: "int \<Rightarrow> real" where
  "pow2 e = 2 powi e"

function ulpFrom :: "int \<Rightarrow> real \<Rightarrow> real" where
  "ulpFrom e x =
     (if e \<le> - 1022 \<or> pow2 e \<le> x then pow2 (max e (- 1022) - 52)
      else ulpFrom (e - 1) x)"
  by pat_completeness auto
termination
  by (relation "measure (\<lambda>(e, x). nat (e + 1022))") auto

declare ulpFrom.simps [simp del]

definition ulp :: "real \<Rightarrow> real" where
  "ulp x = ulpFrom 1023 \<bar>x\<bar>"

definition roundEven :: "real \<Rightarrow> int" where
  "roundEven y =
     (let f = \<lfloor>y\<rfloor>; d = y - of_int f
      in if d < 1 / 2 then f else if 1 / 2 < d then f + 1 else if even f then f else f + 1)"

definition roundDouble :: "real \<Rightarrow> real" where
  "roundDouble x = of_int (roundEven (x / ulp x)) * ulp x"

definition isDouble :: "real \<Rightarrow> bool" where
  "isDouble r = (roundDouble r = r)"

text \<open>\<^verbatim>\<open>Math.floor(Math.random() * n) + 1\<close>, for the result \<open>r\<close> of \<^verbatim>\<open>Math.random()\<close>.\<close>

definition randInt :: "real \<Rightarrow> int \<Rightarrow> int" where
  "randInt r n = \<lfloor>roundDouble (r * of_int n)\<rfloor> + 1"

text \<open>A \<^verbatim>\<open>Set<number>\<close> in insertion order, as \<^verbatim>\<open>Array.from\<close> reads it.\<close>

definition setAdd :: "int \<Rightarrow> int list \<Rightarrow> int list" where
  "setAdd x xs = (if x \<in> set xs then xs else xs @ [x])"

fun fillOptions :: "int \<Rightarrow> int list \<Rightarrow> real list \<Rightarrow> int list option" where
  "fillOptions ans opts [] = (if length opts < 3 then None else Some opts)"
| "fillOptions ans opts (r # rs) =
     (if length opts < 3 then
        (let wrong = randInt r 20 in
         if wrong \<noteq> ans then fillOptions ans (setAdd wrong opts) rs
         else fillOptions ans opts rs)
      else Some opts)"

definition newQuestion :: "Entropy \<Rightarrow> Question option" where
  "newQuestion e =
     (case draws e of
        r1 # r2 # rs \<Rightarrow>
          (let n1 = randInt r1 10;
               n2 = randInt r2 10;
               ans = n1 + n2
           in case fillOptions ans (setAdd ans []) rs of
                None \<Rightarrow> None
              | Some opts \<Rightarrow>
                  Some \<lparr>num1 = n1, num2 = n2, answer = ans, options = shuffle e opts\<rparr>)
      | _ \<Rightarrow> None)"

definition generateQuestion :: "Entropy \<Rightarrow> Game \<Rightarrow> Game option" where
  "generateQuestion e s =
     (case newQuestion e of
        None \<Rightarrow> None
      | Some q \<Rightarrow>
          Some (s\<lparr>currentQuestion := Some q, ballPosition := (12, 58), feedback := None,
                  isKicking := False, kickerFrame := 1, showKicker := True\<rparr>))"

section \<open>Charging and releasing\<close>

text \<open>
  \<^verbatim>\<open>handleKeyDown\<close> and \<^verbatim>\<open>handleKeyUp\<close> are the listeners for the space bar
  (a key-down that is not an auto-repeat). The writes to the power bar element are left
  out. \<open>chargeTick\<close> is the callback of the 40 ms interval that
  \<^verbatim>\<open>handleKeyDown\<close> starts; it can fire as long as the interval has not been
  cleared, which is its only condition.
\<close>

definition handleKeyDown :: "Game \<Rightarrow> Game" where
  "handleKeyDown s =
     (if \<not> isKicking s \<and> \<not> isPaused s \<and> gameState s = Playing then
        s\<lparr>isCharging := True, kickPower := 0, activeTargetIndex := 0,
          chargeInterval := True\<rparr>
      else s)"

definition chargeTick :: "Game \<Rightarrow> Game" where
  "chargeTick s =
     (if chargeInterval s then
        (let currentPower = (if kickPower s < 100 then kickPower s + 4 else 100);
             newTargetIndex =
               (if currentPower > 66 then 2 else if currentPower > 33 then 1 else 0)
         in s\<lparr>kickPower := currentPower, activeTargetIndex := newTargetIndex\<rparr>)
      else s)"

definition handleAnswer :: "int \<Rightarrow> nat \<Rightarrow> Game \<Rightarrow> Game" where
  "handleAnswer selected idx s =
     (if isKicking s \<or> isPaused s \<or> gameState s \<noteq> Playing then s
      else s\<lparr>isKicking := True, kickerFrame := 2,
             kicks := kicks s @
               [\<lparr>selectedAnswer = selected, kIndex = idx,
                 capturedQuestion = currentQuestion s,
                 capturedIndex = questionIndex s, stage = Windup\<rparr>]\<rparr>)"

definition handleKeyUp :: "Game \<Rightarrow> Game" where
  "handleKeyUp s =
     (if \<not> isKicking s \<and> \<not> isPaused s \<and> gameState s = Playing then
        (let s1 = s\<lparr>isCharging := False, chargeInterval := False\<rparr>;
             power = kickPower s;
             targetIndex = (if power > 66 then 2 else if power > 33 then 1 else 0);
             s2 = (case currentQuestion s of
                     None \<Rightarrow> s1
                   | Some q \<Rightarrow>
                       if targetIndex < length (options q)
                       then handleAnswer (options q ! targetIndex) targetIndex s1
                       else s1)
         in s2\<lparr>kickPower := 0\<rparr>)
      else s)"

section \<open>The kick\<close>

text \<open>
  \<open>kickTimer i\<close> is the callback of the 100 ms timer of the \<open>i\<close>-th pending kick:
  it shows the follow-through frame and calls \<^verbatim>\<open>startBallAnimation\<close>, which fixes
  the start, target and control points and requests the first animation frame.
  \<open>animateBall i elapsed\<close> is one animation frame of that kick, \<open>elapsed\<close> being
  \<^verbatim>\<open>currentTime - startTime\<close> in milliseconds. \<open>afterFeedback e i\<close> is the
  callback of the 1500 ms timer that \<^verbatim>\<open>finishKick\<close> sets. Nothing in the source
  cancels these callbacks once a kick is launched.
\<close>

definition startPos :: "real \<times> real" where
  "startPos = (12, 58)"

definition target :: "nat \<Rightarrow> real \<times> real" where
  "target idx = GOAL_POSITIONS ! (idx mod length GOAL_POSITIONS)"

definition controlPos :: "nat \<Rightarrow> real \<times> real" where
  "controlPos idx = ((fst startPos + fst (target idx)) / 2, 10)"

definition progress :: "real \<Rightarrow> real" where
  "progress elapsed = min (elapsed / ANIMATION_DURATION) 1"

definition ballAt :: "nat \<Rightarrow> real \<Rightarrow> real \<times> real" where
  "ballAt idx t =
     ((1 - t)\<^sup>2 * fst startPos + 2 * (1 - t) * t * fst (controlPos idx)
        + t\<^sup>2 * fst (target idx),
      (1 - t)\<^sup>2 * snd startPos + 2 * (1 - t) * t * snd (controlPos idx)
        + t\<^sup>2 * snd (target idx))"

definition kickTimer :: "nat \<Rightarrow> Game \<Rightarrow> Game" where
  "kickTimer i s =
     (if i < length (kicks s) \<and> stage (kicks s ! i) = Windup then
        s\<lparr>kickerFrame := 3, kicks := (kicks s)[i := (kicks s ! i)\<lparr>stage := Flying\<rparr>]\<rparr>
      else s)"

definition finishKick :: "Kick \<Rightarrow> Game \<Rightarrow> Game" where
  "finishKick k s =
     (let isCorrect = (case capturedQuestion k of
                         None \<Rightarrow> False
                       | Some q \<Rightarrow> selectedAnswer k = answer q)
      in if isCorrect then s\<lparr>score := score s + 1, feedback := Some Correct\<rparr>
         else s\<lparr>feedback := Some Incorrect\<rparr>)"

definition animateBall :: "nat \<Rightarrow> real \<Rightarrow> Game \<Rightarrow> Game" where
  "animateBall i elapsed s =
     (if i < length (kicks s) \<and> stage (kicks s ! i) = Flying then
        (let k = kicks s ! i;
             t = progress elapsed;
             s1 = s\<lparr>ballStyle := Some (ballAt (kIndex k) t)\<rparr>
         in if t < 1 then s1
            else finishKick k (s1\<lparr>kicks := (kicks s)[i := k\<lparr>stage := Landed\<rparr>]\<rparr>))
      else s)"

definition afterFeedback :: "Entropy \<Rightarrow> nat \<Rightarrow> Game \<Rightarrow> Game option" where
  "afterFeedback e i s =
     (if i < length (kicks s) \<and> stage (kicks s ! i) = Landed then
        (let k = kicks s ! i;
             s1 = s\<lparr>kicks := take i (kicks s) @ drop (Suc i) (kicks s)\<rparr>
         in if capturedIndex k < QUESTION_COUNT - 1
            then generateQuestion e (s1\<lparr>questionIndex := questionIndex s + 1\<rparr>)
            else Some (s1\<lparr>gameState := Finished, isPaused := True\<rparr>))
      else Some s)"

section \<open>Round control\<close>

definition startGame :: "Entropy \<Rightarrow> Game \<Rightarrow> Game option" where
  "startGame e s =
     (case generateQuestion e
             (s\<lparr>gameState := Playing, score := 0, questionIndex := 0,
                 elapsedSeconds := 0\<rparr>) of
        None \<Rightarrow> None
      | Some s1 \<Rightarrow> Some (s1\<lparr>isPaused := False, showHelp := False\<rparr>))"

definition resetRound :: "Entropy \<Rightarrow> Game \<Rightarrow> Game option" where
  "resetRound e s =
     (case generateQuestion e
             (s\<lparr>gameState := Playing, score := 0, questionIndex := 0,
                 elapsedSeconds := 0, feedback := None, isKicking := False,
                 kickerFrame := 1, showKicker := True, ballPosition := (12, 58)\<rparr>) of
        None \<Rightarrow> None
      | Some s1 \<Rightarrow> Some (s1\<lparr>isPaused := False, showSidebar := False, kickPower := 0\<rparr>))"

definition togglePause :: "Game \<Rightarrow> Game" where
  "togglePause s = (let next = \<not> isPaused s in s\<lparr>showSidebar := next, isPaused := next\<rparr>)"

definition openHelp :: "Game \<Rightarrow> Game" where
  "openHelp s = s\<lparr>showHelp := True, isPaused := True, showSidebar := True\<rparr>"

definition closeHelp :: "Entropy \<Rightarrow> Game \<Rightarrow> Game option" where
  "closeHelp e s =
     (case (if gameState s = Menu then startGame e (s\<lparr>showHelp := False\<rparr>)
            else Some (s\<lparr>showHelp := False, isPaused := False\<rparr>)) of
        None \<Rightarrow> None
      | Some s1 \<Rightarrow> Some (s1\<lparr>showSidebar := False\<rparr>))"

text \<open>The one-second interval exists only while the round is playing and not paused.\<close>

definition secondTick :: "Game \<Rightarrow> Game" where
  "secondTick s =
     (if isPaused s \<or> gameState s \<noteq> Playing then s
      else s\<lparr>elapsedSeconds := elapsedSeconds s + 1\<rparr>)"

text \<open>The effect that runs once when the component is mounted.\<close>

definition mount :: "Entropy \<Rightarrow> Game option" where
  "mount e =
     (case generateQuestion e initialGame of
        None \<Rightarrow> None
      | Some s1 \<Rightarrow> Some (s1\<lparr>showHelp := True, isPaused := True\<rparr>))"

section \<open>Events\<close>

text \<open>
  The component is driven by user input, timers and animation frames. An execution is a
  list of events applied to the mounted component; \<open>None\<close> means that a call of
  \<^verbatim>\<open>generateQuestion\<close> did not get enough draws to leave its loop.
\<close>

datatype Event =
    KeyDown
  | KeyUp
  | ChargeTick
  | KickTimer nat
  | AnimFrame nat real
  | AfterFeedback Entropy nat
  | TogglePause
  | OpenHelp
  | CloseHelp Entropy
  | ResetRound Entropy
  | SecondTick

fun step :: "Event \<Rightarrow> Game \<Rightarrow> Game option" where
  "step KeyDown s = Some (handleKeyDown s)"
| "step KeyUp s = Some (handleKeyUp s)"
| "step ChargeTick s = Some (chargeTick s)"
| "step (KickTimer i) s = Some (kickTimer i s)"
| "step (AnimFrame i elapsed) s = Some (animateBall i elapsed s)"
| "step (AfterFeedback e i) s = afterFeedback e i s"
| "step TogglePause s = Some (togglePause s)"
| "step OpenHelp s = Some (openHelp s)"
| "step (CloseHelp e) s = closeHelp e s"
| "step (ResetRound e) s = resetRound e s"
| "step SecondTick s = Some (secondTick s)"

fun run :: "Event list \<Rightarrow> Game \<Rightarrow> Game option" where
  "run [] s = Some s"
| "run (ev # evs) s = (case step ev s of None \<Rightarrow> None | Some s' \<Rightarrow> run evs s')"

section \<open>Invariants of executions\<close>

text \<open>
  \<open>powerOk\<close> is the range of the power value. \<open>orderly\<close> describes the states of a
  round in which at most one kick is pending: the pending kick was launched on the
  current question index, \<^verbatim>\<open>isKicking\<close> is set while it is pending, and the score
  counts at most the questions resolved so far. \<open>resetsWhenIdle evs s\<close> says that in
  the execution of \<open>evs\<close> from \<open>s\<close> the round is reset only while no kick is pending.
\<close>

definition powerOk :: "Game \<Rightarrow> bool" where
  "powerOk s = (0 \<le> kickPower s \<and> kickPower s \<le> 100 \<and> 4 dvd kickPower s)"

definition orderly :: "Game \<Rightarrow> bool" where
  "orderly s =
     (0 \<le> score s \<and> 0 \<le> questionIndex s \<and> questionIndex s \<le> QUESTION_COUNT - 1
      \<and> (case kicks s of
            [] \<Rightarrow> score s \<le> questionIndex s + (if gameState s = Finished then 1 else 0)
          | [k] \<Rightarrow>
              isKicking s \<and> gameState s = Playing \<and> capturedIndex k = questionIndex s
              \<and> score s \<le> questionIndex s + (if stage k = Landed then 1 else 0)
          | _ \<Rightarrow> False))"

fun isReset :: "Event \<Rightarrow> bool" where
  "isReset (ResetRound e) = True"
| "isReset _ = False"

fun resetsWhenIdle :: "Event list \<Rightarrow> Game \<Rightarrow> bool" where
  "resetsWhenIdle [] s = True"
| "resetsWhenIdle (ev # evs) s =
     ((isReset ev \<longrightarrow> kicks s = [])
      \<and> (case step ev s of None \<Rightarrow> True | Some s' \<Rightarrow> resetsWhenIdle evs s'))"

section \<open>Reference notions and example inputs\<close>

text \<open>
  The tier thresholds and the curve as the specification words them, to be compared with
  what the handlers compute.
\<close>

definition specTier :: "int \<Rightarrow> nat" where
  "specTier p = (if p \<le> 33 then 0 else if 34 \<le> p \<and> p \<le> 66 then 1 else 2)"

definition quadBezier ::
  "real \<times> real \<Rightarrow> real \<times> real \<Rightarrow> real \<times> real \<Rightarrow> real \<Rightarrow> real \<times> real" where
  "quadBezier P0 C P1 t =
     ((1 - t)\<^sup>2 * fst P0 + 2 * (1 - t) * t * fst C + t\<^sup>2 * fst P1,
      (1 - t)\<^sup>2 * snd P0 + 2 * (1 - t) * t * snd C + t\<^sup>2 * snd P1)"

definition clamp01 :: "real \<Rightarrow> real" where
  "clamp01 x = max 0 (min x 1)"

text \<open>
  The example of the specification: operands 3 and 4, options 7, 12 and 3 in this order.
  The four draws are doubles whose products with 10 and 20 are doubles too; they give
  \<open>\<lfloor>10/4\<rfloor> + 1 = 3\<close>, \<open>\<lfloor>30/8\<rfloor> + 1 = 4\<close>, \<open>\<lfloor>180/16\<rfloor> + 1 = 12\<close> and
  \<open>\<lfloor>20/8\<rfloor> + 1 = 3\<close>. A second set of draws gives the question 6 + 6 with the options
  12, 7 and 3.
\<close>

definition exampleEntropy :: Entropy where
  "exampleEntropy = \<lparr>draws = [1/4, 3/8, 9/16, 1/8], shuffle = (\<lambda>xs. xs)\<rparr>"

definition exampleQuestion :: Question where
  "exampleQuestion = \<lparr>num1 = 3, num2 = 4, answer = 7, options = [7, 12, 3]\<rparr>"

definition otherEntropy :: Entropy where
  "otherEntropy = \<lparr>draws = [9/16, 9/16, 5/16, 1/8], shuffle = (\<lambda>xs. xs)\<rparr>"

definition otherQuestion :: Question where
  "otherQuestion = \<lparr>num1 = 6, num2 = 6, answer = 12, options = [12, 7, 3]\<rparr>"

definition mountedGame :: Game where
  "mountedGame =
     initialGame\<lparr>currentQuestion := Some exampleQuestion, showHelp := True, isPaused := True\<rparr>"

definition playingGame :: Game where
  "playingGame = initialGame\<lparr>gameState := Playing, currentQuestion := Some exampleQuestion\<rparr>"

definition chargedGame :: Game where
  "chargedGame =
     playingGame\<lparr>isCharging := True, kickPower := 36, activeTargetIndex := 1,
       chargeInterval := True\<rparr>"

definition exampleKick :: Kick where
  "exampleKick =
     \<lparr>selectedAnswer = 7, kIndex = 0, capturedQuestion = Some exampleQuestion,
      capturedIndex = 0, stage = Flying\<rparr>"

definition flyingGame :: Game where
  "flyingGame = playingGame\<lparr>isKicking := True, kickerFrame := 3, kicks := [exampleKick]\<rparr>"

definition missKick :: Kick where
  "missKick = exampleKick\<lparr>selectedAnswer := 12, kIndex := 1, capturedIndex := 9\<rparr>"

definition lastMissGame :: Game where
  "lastMissGame = flyingGame\<lparr>score := 6, questionIndex := 9, kicks := [missKick]\<rparr>"

definition finishedGame :: Game where
  "finishedGame =
     playingGame\<lparr>gameState := Finished, score := 7, questionIndex := 9, isPaused := True,
       elapsedSeconds := 42\<rparr>"

text \<open>
  Executions from \<open>playingGame\<close>. In \<open>pausedHoldTrace\<close> the player holds the
  space bar and clicks the pause button, and the charge interval fires once more. In
  \<open>doubleKickTrace\<close> the player kicks, pauses and resets the round while the ball is in
  the air, and kicks again. In \<open>relayKickTrace\<close> the reset comes while the feedback of
  the first kick is shown; the second kick is launched before the 1500 ms timer of the
  first fires, and the third after it. \<open>overScoreTrace\<close> goes on from
  \<open>doubleKickTrace\<close>: both balls land, and from then on the player answers each new
  question as soon as it is shown, so that two kicks stay pending in turn
  (\<open>pipelineRound\<close>).
\<close>

definition pausedHoldTrace :: "Event list" where
  "pausedHoldTrace = [KeyDown, TogglePause, ChargeTick]"

definition pausedReleaseTrace :: "Event list" where
  "pausedReleaseTrace =
     [KeyDown, TogglePause,
      ChargeTick, ChargeTick, ChargeTick, ChargeTick, ChargeTick, ChargeTick, ChargeTick,
      ChargeTick, ChargeTick,
      TogglePause, KeyUp]"

definition doubleKickTrace :: "Event list" where
  "doubleKickTrace =
     [KeyDown, KeyUp, KickTimer 0, TogglePause, ResetRound exampleEntropy,
      KeyDown, KeyUp, KickTimer 1]"

definition relayKickTrace :: "Event list" where
  "relayKickTrace =
     [KeyDown, KeyUp, KickTimer 0, AnimFrame 0 800, TogglePause, ResetRound exampleEntropy,
      KeyDown, KeyUp, KickTimer 1, AfterFeedback exampleEntropy 0,
      KeyDown, KeyUp, KickTimer 1]"

definition pipelineRound :: "Event list" where
  "pipelineRound =
     [AfterFeedback exampleEntropy 0, KeyDown, KeyUp, KickTimer 1,
      AfterFeedback exampleEntropy 0, KeyDown, KeyUp, KickTimer 1,
      AnimFrame 0 800, AnimFrame 1 800]"

definition overScoreTrace :: "Event list" where
  "overScoreTrace =
     doubleKickTrace @ [AnimFrame 0 800, AnimFrame 1 800]
       @ pipelineRound @ pipelineRound @ pipelineRound @ pipelineRound @ pipelineRound"

text \<open>
  More executions from \<open>playingGame\<close>: in \<open>staleKickTrace\<close> the player kicks,
  pauses and resets the round, and the ball lands after the reset; in
  \<open>staleAnswerTrace\<close> the reset moreover brings the question 6 + 6;
  \<open>fullRoundTrace\<close> is a round of ten kicks, each resolved before the next one.
\<close>

definition staleAnswerTrace :: "Event list" where
  "staleAnswerTrace =
     [KeyDown, KeyUp, KickTimer 0, TogglePause, ResetRound otherEntropy, AnimFrame 0 800]"

definition staleKickTrace :: "Event list" where
  "staleKickTrace =
     [KeyDown, KeyUp, KickTimer 0, TogglePause, ResetRound exampleEntropy, AnimFrame 0 800]"

definition normalKick :: "Event list" where
  "normalKick =
     [KeyDown, KeyUp, KickTimer 0, AnimFrame 0 800, AfterFeedback exampleEntropy 0]"

definition fullRoundTrace :: "Event list" where
  "fullRoundTrace =
     normalKick @ normalKick @ normalKick @ normalKick @ normalKick
       @ normalKick @ normalKick @ normalKick @ normalKick @ normalKick"

section \<open>Properties of question generation\<close>

text \<open>Powers of two, and the spacing of the doubles.\<close>

lemma pow2_pos [simp]: "0 < pow2 e"
  by (simp add: pow2_def)

lemma pow2_nonneg [simp]: "0 \<le> pow2 e"
  by (simp add: pow2_def)

lemma pow2_minus: "pow2 (- e) = 1 / pow2 e"
  by (simp add: pow2_def power_int_minus field_simps)

lemma pow2_add: "pow2 (a + b) = pow2 a * pow2 b"
  by (simp add: pow2_def power_int_add)

lemma pow2_less_iff [simp]: "pow2 a < pow2 b \<longleftrightarrow> a < b"
proof
  assume "pow2 a < pow2 b"
  show "a < b"
  proof (rule ccontr)
    assume "\<not> a < b"
    then have "b \<le> a" by simp
    then have "pow2 b \<le> pow2 a"
      unfolding pow2_def by (intro power_int_increasing) simp_all
    with \<open>pow2 a < pow2 b\<close> show False by simp
  qed
next
  assume "a < b"
  then show "pow2 a < pow2 b"
    unfolding pow2_def by (intro power_int_strict_increasing) simp_all
qed

lemma pow2_le_iff [simp]: "pow2 a \<le> pow2 b \<longleftrightarrow> a \<le> b"
  using pow2_less_iff[of b a] by (simp add: not_less[symmetric] del: pow2_less_iff)

lemma pow2_0 [simp]: "pow2 0 = 1"
  by (simp add: pow2_def)

lemma pow2_of_int: "0 \<le> e \<Longrightarrow> pow2 e = of_int (2 ^ nat e)"
  by (simp add: pow2_def power_int_def)

lemma ulpFrom_pos: "0 < ulpFrom e x"
  by (induction e x rule: ulpFrom.induct) (subst ulpFrom.simps, simp)

lemma ulp_pos: "0 < ulp x"
  by (simp add: ulp_def ulpFrom_pos)

lemma ulpFrom_down:
  assumes "- 1022 \<le> e'" "e' \<le> e" "x < pow2 (e' + 1)"
  shows "ulpFrom e x = ulpFrom e' x"
  using assms(2,1,3)
proof (induction e rule: int_ge_induct)
  case base
  show ?case ..
next
  case (step i)
  have "pow2 (e' + 1) \<le> pow2 (i + 1)"
    using step.hyps by simp
  with step.prems(2) have "\<not> pow2 (i + 1) \<le> x" by linarith
  moreover have "\<not> i + 1 \<le> - 1022" using step.hyps step.prems by simp
  ultimately have "ulpFrom (i + 1) x = ulpFrom i x"
    by (subst ulpFrom.simps) simp
  with step show ?case by simp
qed

lemma ulp_binade:
  assumes "- 1022 \<le> m" "m \<le> 1023" "pow2 m \<le> \<bar>x\<bar>" "\<bar>x\<bar> < pow2 (m + 1)"
  shows "ulp x = pow2 (m - 52)"
proof -
  have "ulp x = ulpFrom m \<bar>x\<bar>"
    unfolding ulp_def using assms by (intro ulpFrom_down) simp_all
  also have "\<dots> = pow2 (max m (- 1022) - 52)"
    using assms(3) by (subst ulpFrom.simps) simp
  finally show ?thesis using assms(1) by (simp add: max_def)
qed

lemma ulpFrom_le:
  "x < pow2 (e + 1) \<Longrightarrow> ulpFrom e x \<le> pow2 (max e (- 1022) - 52)"
proof (induction e x rule: ulpFrom.induct)
  case (1 e x)
  show ?case
  proof (cases "e \<le> - 1022 \<or> pow2 e \<le> x")
    case True
    then show ?thesis by (subst ulpFrom.simps) simp
  next
    case False
    then have lt: "x < pow2 (e - 1 + 1)" by simp
    have "ulpFrom e x = ulpFrom (e - 1) x"
      using False by (subst ulpFrom.simps) simp
    also have "\<dots> \<le> pow2 (max (e - 1) (- 1022) - 52)"
      using "1.IH"[OF False lt] .
    also have "\<dots> \<le> pow2 (max e (- 1022) - 52)"
      by simp
    finally show ?thesis .
  qed
qed

lemma ulpFrom_pow2: "\<exists>j. ulpFrom e x = pow2 j"
proof (induction e x rule: ulpFrom.induct)
  case (1 e x)
  show ?case
  proof (cases "e \<le> - 1022 \<or> pow2 e \<le> x")
    case True
    then have "ulpFrom e x = pow2 (max e (- 1022) - 52)" by (subst ulpFrom.simps) simp
    then show ?thesis by blast
  next
    case False
    then have "ulpFrom e x = ulpFrom (e - 1) x" by (subst ulpFrom.simps) simp
    with "1.IH"[OF False] show ?thesis by simp
  qed
qed

lemma roundEven_nonneg: "0 \<le> y \<Longrightarrow> 0 \<le> roundEven y"
  by (auto simp: roundEven_def Let_def)

lemma roundEven_le:
  assumes a: "y \<le> of_int K"
  shows "roundEven y \<le> K"
proof -
  have f: "\<lfloor>y\<rfloor> \<le> K" using a by (metis floor_mono floor_of_int)
  show ?thesis
  proof (cases "\<lfloor>y\<rfloor> = K")
    case True
    then have "of_int K \<le> y" using of_int_floor_le[of y] by simp
    with a have "y = of_int K" by simp
    then show ?thesis by (simp add: roundEven_def Let_def)
  next
    case False
    with f have "\<lfloor>y\<rfloor> + 1 \<le> K" by simp
    then show ?thesis by (auto simp: roundEven_def Let_def)
  qed
qed

lemma roundEven_below_half:
  assumes a: "y < of_int M - 1 / 2"
  shows "roundEven y \<le> M - 1"
proof -
  from a have "y < of_int M" by simp
  then have f: "\<lfloor>y\<rfloor> \<le> M - 1" by (simp add: floor_less_iff)
  show ?thesis
  proof (cases "\<lfloor>y\<rfloor> = M - 1")
    case True
    then have "y - of_int \<lfloor>y\<rfloor> < 1 / 2" using a by simp
    then show ?thesis using True by (simp add: roundEven_def Let_def)
  next
    case False
    with f have "\<lfloor>y\<rfloor> + 1 \<le> M - 1" by simp
    then show ?thesis by (auto simp: roundEven_def Let_def)
  qed
qed

lemma roundEven_of_int: "roundEven (of_int k) = k"
  by (simp add: roundEven_def Let_def)

lemma roundDouble_nonneg: "0 \<le> x \<Longrightarrow> 0 \<le> roundDouble x"
  using ulp_pos[of x] by (simp add: roundDouble_def roundEven_nonneg)

lemma roundDouble_le_pow2:
  assumes "0 \<le> x" "x < pow2 m" "- 1021 \<le> m" "m \<le> 1024"
  shows "roundDouble x \<le> pow2 m"
proof -
  define u where "u = ulp x"
  have up: "0 < u" by (simp add: u_def ulp_pos)
  have "u = ulpFrom (m - 1) x"
    unfolding u_def ulp_def using assms by (simp add: ulpFrom_down)
  also have "\<dots> \<le> pow2 (max (m - 1) (- 1022) - 52)"
    using assms by (intro ulpFrom_le) simp
  also have "max (m - 1) (- 1022) - 52 = m - 53" using assms(3) by simp
  finally have ule: "u \<le> pow2 (m - 53)" .
  obtain j where j: "u = pow2 j" using ulpFrom_pow2[of 1023 "\<bar>x\<bar>"] by (auto simp: u_def ulp_def)
  with ule have jm: "j \<le> m - 53" by simp
  define K :: int where "K = 2 ^ nat (m - j)"
  have "of_int K = pow2 (m - j)" using jm by (simp add: K_def pow2_of_int)
  then have Ku: "of_int K * u = pow2 m"
    using pow2_add[of "m - j" j] by (simp add: j)
  have "x / u < of_int K"
    using assms(2) up Ku by (simp add: pos_divide_less_eq)
  then have "roundEven (x / u) \<le> K" by (intro roundEven_le) simp
  then have "of_int (roundEven (x / u)) * u \<le> of_int K * u"
    using up by (simp add: mult_right_mono)
  then show ?thesis by (simp add: roundDouble_def u_def[symmetric] Ku)
qed

lemma pow2_inverse: "pow2 (- e) * pow2 e = 1"
  using pow2_add[of "- e" e] by simp

lemma roundDouble_exact:
  assumes "- 1022 \<le> m" "m \<le> 1023" "pow2 m \<le> \<bar>x\<bar>" "\<bar>x\<bar> < pow2 (m + 1)"
    and "x * pow2 (52 - m) = of_int k"
  shows "roundDouble x = x"
proof -
  have u: "ulp x = pow2 (m - 52)" using assms(1-4) by (rule ulp_binade)
  have i: "pow2 (52 - m) * pow2 (m - 52) = 1"
    using pow2_inverse[of "m - 52"] by simp
  have "x / pow2 (m - 52) = x * pow2 (52 - m)"
    using pow2_minus[of "m - 52"] by simp
  then have "roundEven (x / ulp x) = k"
    by (simp add: u assms(5) roundEven_of_int)
  then have "roundDouble x = x * (pow2 (52 - m) * pow2 (m - 52))"
    by (simp add: roundDouble_def u assms(5)[symmetric])
  then show ?thesis by (simp only: i mult_1_right)
qed

lemma double_below_one:
  assumes "isDouble r" "0 \<le> r" "r < 1"
  shows "r \<le> 1 - pow2 (- 53)"
proof (cases "r < 1 / 2")
  case True
  have "pow2 (- 53) \<le> pow2 (- 1)" by simp
  also have "pow2 (- 1) = 1 / 2" by (simp add: pow2_def)
  finally show ?thesis using True by simp
next
  case False
  have h: "pow2 (- 1) = 1 / 2" by (simp add: pow2_def)
  have "pow2 (- 1) \<le> \<bar>r\<bar>" "\<bar>r\<bar> < pow2 (- 1 + 1)"
    using False assms by (simp_all add: h)
  then have "ulp r = pow2 (- 1 - 52)"
    by (intro ulp_binade) simp_all
  then have u: "ulp r = pow2 (- 53)" by simp
  define k where "k = roundEven (r / ulp r)"
  define N :: int where "N = 2 ^ 53"
  have N: "of_int N = pow2 53" by (simp add: N_def pow2_of_int)
  have one: "of_int N * pow2 (- 53) = 1"
    using pow2_add[of 53 "- 53"] by (simp add: N)
  have r: "r = of_int k * pow2 (- 53)"
    using assms(1) u by (simp add: isDouble_def roundDouble_def k_def)
  have "of_int k * pow2 (- 53) < of_int N * pow2 (- 53)"
    using assms(3) r one by simp
  then have "(of_int k :: real) < of_int N" by simp
  then have "k \<le> N - 1" by simp
  then have "(of_int k :: real) \<le> of_int (N - 1)" by (simp only: of_int_le_iff)
  then have "of_int k * pow2 (- 53) \<le> of_int (N - 1) * pow2 (- 53)"
    by (intro mult_right_mono) simp_all
  also have "\<dots> = 1 - pow2 (- 53)" using one by (simp add: algebra_simps)
  finally show ?thesis using r by simp
qed

text \<open>
  The product of a double below 1 with an integer \<open>n\<close>, rounded to a double, stays
  below \<open>n\<close> when \<open>n\<close> is no power of two: \<open>r n\<close> is at most
  \<open>n - n 2\<^sup>-\<^sup>5\<^sup>3\<close>, more than half a unit in the last place below \<open>n\<close>.
\<close>

lemma floor_product_bound:
  assumes r: "isDouble r" "0 \<le> r" "r < 1"
    and n: "pow2 e < of_int n" "of_int n \<le> pow2 (e + 1)" "0 \<le> e" "e \<le> 52"
  shows "0 \<le> \<lfloor>roundDouble (r * of_int n)\<rfloor> \<and> \<lfloor>roundDouble (r * of_int n)\<rfloor> < n"
proof -
  define x where "x = r * of_int n"
  have npos: "(0::real) < of_int n" using n(1) pow2_pos[of e] by linarith
  have x0: "0 \<le> x" using r(2) npos by (simp add: x_def)
  have xn: "x \<le> of_int n - of_int n * pow2 (- 53)"
  proof -
    have "r * of_int n \<le> (1 - pow2 (- 53)) * of_int n"
      using double_below_one[OF r] npos by (intro mult_right_mono) simp_all
    then show ?thesis by (simp add: x_def algebra_simps)
  qed
  have lt: "roundDouble x < of_int n"
  proof (cases "x < pow2 e")
    case True
    have "roundDouble x \<le> pow2 e"
      using x0 True n(3,4) by (intro roundDouble_le_pow2) simp_all
    with n(1) show ?thesis by simp
  next
    case False
    have "0 < of_int n * pow2 (- 53)" using npos by simp
    with xn have "x < of_int n" by linarith
    with n(2) have up: "\<bar>x\<bar> < pow2 (e + 1)" using x0 by simp
    have lo: "pow2 e \<le> \<bar>x\<bar>" using False x0 by simp
    define u where "u = pow2 (e - 52)"
    have u: "ulp x = u" unfolding u_def using n(3,4) lo up by (intro ulp_binade) simp_all
    have upos: "0 < u" by (simp add: u_def)
    define M :: int where "M = n * 2 ^ nat (52 - e)"
    have "of_int M = of_int n * pow2 (52 - e)" using n(4) by (simp add: M_def pow2_of_int)
    moreover have "pow2 (52 - e) * u = 1" using pow2_inverse[of "e - 52"] by (simp add: u_def)
    ultimately have Mu: "of_int M * u = of_int n" by (simp add: mult.assoc)
    have half: "pow2 (- 1) = 1 / 2" by (simp add: pow2_def)
    have "pow2 (- 53) = pow2 (- 1 - e) * u"
      using pow2_add[of "- 1 - e" "e - 52"] by (simp add: u_def)
    then have np: "of_int n * pow2 (- 53) = (of_int n * pow2 (- 1 - e)) * u" by simp
    have "1 / 2 < of_int n * pow2 (- 1 - e)"
    proof -
      have "pow2 (- 1) = pow2 e * pow2 (- 1 - e)" using pow2_add[of e "- 1 - e"] by simp
      also have "\<dots> < of_int n * pow2 (- 1 - e)"
        using n(1) by (intro mult_strict_right_mono) simp_all
      finally show ?thesis by (simp add: half)
    qed
    then have "1 / 2 * u < (of_int n * pow2 (- 1 - e)) * u"
      using upos by (rule mult_strict_right_mono)
    then have "1 / 2 * u < of_int n * pow2 (- 53)"
      by (simp only: np)
    with xn have "x < of_int M * u - 1 / 2 * u" by (simp add: Mu)
    then have "x < (of_int M - 1 / 2) * u" by (simp add: algebra_simps)
    then have "x / u < of_int M - 1 / 2" using upos by (simp add: pos_divide_less_eq)
    then have "roundEven (x / u) \<le> M - 1" by (rule roundEven_below_half)
    then have "(of_int (roundEven (x / u)) :: real) \<le> of_int (M - 1)" by (simp only: of_int_le_iff)
    then have "of_int (roundEven (x / u)) * u \<le> of_int (M - 1) * u"
      using upos by (intro mult_right_mono) simp_all
    also have "\<dots> = of_int n - u" using Mu by (simp add: algebra_simps)
    finally have "roundDouble x \<le> of_int n - u" by (simp add: roundDouble_def u)
    with upos show ?thesis by simp
  qed
  have "0 \<le> roundDouble x" using x0 by (rule roundDouble_nonneg)
  then have "0 \<le> \<lfloor>roundDouble x\<rfloor>" by simp
  moreover have "\<lfloor>roundDouble x\<rfloor> < n" using lt by (simp add: floor_less_iff)
  ultimately show ?thesis by (simp add: x_def)
qed

lemma randInt_range_10:
  assumes "isDouble r" "0 \<le> r" "r < 1"
  shows "1 \<le> randInt r 10 \<and> randInt r 10 \<le> 10"
proof -
  have "pow2 3 < of_int 10" "of_int 10 \<le> pow2 (3 + 1)" by (simp_all add: pow2_def)
  from floor_product_bound[OF assms this] show ?thesis by (simp add: randInt_def)
qed

lemma randInt_range_20:
  assumes "isDouble r" "0 \<le> r" "r < 1"
  shows "1 \<le> randInt r 20 \<and> randInt r 20 \<le> 20"
proof -
  have "pow2 4 < of_int 20" "of_int 20 \<le> pow2 (4 + 1)" by (simp_all add: pow2_def)
  from floor_product_bound[OF assms this] show ?thesis by (simp add: randInt_def)
qed

lemma randInt_exact:
  "r * of_int n = x \<Longrightarrow> roundDouble x = x \<Longrightarrow> \<lfloor>x\<rfloor> + 1 = k \<Longrightarrow> randInt r n = k"
  by (simp add: randInt_def)

text \<open>
  The rounding matters: the double nearest to 0.95 is below 0.95, its exact product
  with 20 is below 19, and the rounded product is 19, so that the distractor is 20;
  likewise the double nearest to 0.3 gives the operand 4.
\<close>

lemma ulp_half_binade: "1 / 2 \<le> x \<Longrightarrow> x < 1 \<Longrightarrow> ulp x = pow2 (- 53)"
  using ulp_binade[of "- 1" x] by (simp add: pow2_def)

lemma ulp_16_binade: "16 \<le> x \<Longrightarrow> x < 32 \<Longrightarrow> ulp x = pow2 (- 48)"
  using ulp_binade[of 4 x] by (simp add: pow2_def)

lemma roundDouble_095: "roundDouble (19 / 20) = 8556839292003942 / 2 ^ 53"
proof -
  have u: "ulp (19 / 20) = pow2 (- 53)" by (rule ulp_half_binade) simp_all
  have p: "pow2 (- 53) = 1 / 2 ^ 53" by (simp add: pow2_def)
  have "roundEven (19 / 20 / (1 / 2 ^ 53)) = 8556839292003942"
    by (simp add: roundEven_def Let_def)
  then show ?thesis by (simp add: roundDouble_def u p)
qed

lemma randInt_095: "randInt (roundDouble (19 / 20)) 20 = 20"
proof -
  define x :: real where "x = 8556839292003942 / 2 ^ 53 * 20"
  have u: "ulp x = pow2 (- 48)" by (rule ulp_16_binade) (simp_all add: x_def)
  have p: "pow2 (- 48) = 1 / 2 ^ 48" by (simp add: pow2_def)
  have "roundEven (x / (1 / 2 ^ 48)) = 5348024557502464"
    by (simp add: roundEven_def Let_def x_def)
  then have "roundDouble x = 19" by (simp add: roundDouble_def u p)
  then show ?thesis by (simp add: randInt_def roundDouble_095 x_def)
qed

lemma ulp_quarter_binade: "1 / 4 \<le> x \<Longrightarrow> x < 1 / 2 \<Longrightarrow> ulp x = pow2 (- 54)"
  using ulp_binade[of "- 2" x] by (simp add: pow2_def)

lemma ulp_2_binade: "2 \<le> x \<Longrightarrow> x < 4 \<Longrightarrow> ulp x = pow2 (- 51)"
  using ulp_binade[of 1 x] by (simp add: pow2_def)

lemma roundDouble_03: "roundDouble (3 / 10) = 5404319552844595 / 2 ^ 54"
proof -
  have u: "ulp (3 / 10) = pow2 (- 54)" by (rule ulp_quarter_binade) simp_all
  have p: "pow2 (- 54) = 1 / 2 ^ 54" by (simp add: pow2_def)
  have "roundEven (3 / 10 / (1 / 2 ^ 54)) = 5404319552844595"
    by (simp add: roundEven_def Let_def)
  then show ?thesis by (simp add: roundDouble_def u p)
qed

lemma randInt_03: "randInt (roundDouble (3 / 10)) 10 = 4"
proof -
  define x :: real where "x = 5404319552844595 / 2 ^ 54 * 10"
  have u: "ulp x = pow2 (- 51)" by (rule ulp_2_binade) (simp_all add: x_def)
  have p: "pow2 (- 51) = 1 / 2 ^ 51" by (simp add: pow2_def)
  have "roundEven (x / (1 / 2 ^ 51)) = 6755399441055744"
    by (simp add: roundEven_def Let_def x_def)
  then have "roundDouble x = 3" by (simp add: roundDouble_def u p)
  then show ?thesis by (simp add: randInt_def roundDouble_03 x_def)
qed

lemma fillOptions_inv:
  "fillOptions ans opts rs = Some res \<Longrightarrow> distinct opts \<Longrightarrow> length opts \<le> 3
   \<Longrightarrow> distinct res \<and> length res = 3 \<and> (\<exists>ys. res = opts @ ys \<and> ans \<notin> set ys)"
  by (induction ans opts rs rule: fillOptions.induct)
     (auto simp: setAdd_def Let_def split: if_splits)

lemma fillOptions_subset:
  "fillOptions ans opts rs = Some res \<Longrightarrow> set res \<subseteq> set opts \<union> (\<lambda>r. randInt r 20) ` set rs"
  by (induction ans opts rs rule: fillOptions.induct)
     (auto simp: setAdd_def Let_def split: if_splits)

text \<open>
  The loop of \<^verbatim>\<open>generateQuestion\<close> returns as soon as the draws have produced two
  different values other than the answer; draws that all hit the answer keep it running.
\<close>

lemma fillOptions_returns:
  "distinct opts \<Longrightarrow>
   3 - length opts \<le> card ((\<lambda>r. randInt r 20) ` set rs - insert ans (set opts)) \<Longrightarrow>
   \<exists>res. fillOptions ans opts rs = Some res"
proof (induction rs arbitrary: opts)
  case Nil
  then show ?case by simp
next
  case (Cons r rs)
  define w where "w = randInt r 20"
  define A where "A = (\<lambda>r. randInt r 20) ` set rs"
  have img: "(\<lambda>r. randInt r 20) ` set (r # rs) = insert w A"
    by (simp add: w_def A_def)
  show ?case
  proof (cases "length opts < 3")
    case False
    then show ?thesis by simp
  next
    case short: True
    show ?thesis
    proof (cases "w = ans \<or> w \<in> set opts")
      case True
      then have "insert w A - insert ans (set opts) = A - insert ans (set opts)" by auto
      with Cons.prems(2) have "3 - length opts \<le> card (A - insert ans (set opts))"
        by (simp only: img)
      from Cons.IH[OF Cons.prems(1) this[unfolded A_def]]
      obtain res where "fillOptions ans opts rs = Some res" by blast
      with True short show ?thesis
        by (auto simp: setAdd_def w_def[symmetric] Let_def)
    next
      case False
      then have new: "w \<noteq> ans" "w \<notin> set opts" by simp_all
      define X where "X = A - insert ans (set (opts @ [w]))"
      have fin: "finite X" by (simp add: X_def A_def)
      have "insert w A - insert ans (set opts) \<subseteq> insert w X"
        by (auto simp: X_def)
      then have "card (insert w A - insert ans (set opts)) \<le> card (insert w X)"
        using fin by (intro card_mono) simp_all
      also have "\<dots> \<le> Suc (card X)" by (rule card_insert_le_m1) simp_all
      finally have "3 - length opts \<le> Suc (card X)"
        using Cons.prems(2) by (simp only: img)
      then have le: "3 - length (opts @ [w]) \<le> card X" by simp
      have d: "distinct (opts @ [w])" using Cons.prems(1) new(2) by simp
      from Cons.IH[OF d le[unfolded X_def A_def]]
      obtain res where "fillOptions ans (opts @ [w]) rs = Some res" by blast
      with new short show ?thesis
        by (auto simp: setAdd_def w_def[symmetric] Let_def)
    qed
  qed
qed

lemma fillOptions_stalls:
  "length opts < 3 \<Longrightarrow> \<forall>r\<in>set rs. randInt r 20 = ans \<Longrightarrow> fillOptions ans opts rs = None"
  by (induction rs) simp_all

lemma newQuestion_shape:
  assumes "newQuestion e = Some q"
  shows "\<exists>r1 r2 rs d1 d2. draws e = r1 # r2 # rs \<and> num1 q = randInt r1 10 \<and> num2 q = randInt r2 10
     \<and> answer q = num1 q + num2 q \<and> options q = shuffle e [answer q, d1, d2]
     \<and> fillOptions (answer q) [answer q] rs = Some [answer q, d1, d2]
     \<and> d1 \<noteq> answer q \<and> d2 \<noteq> answer q \<and> d1 \<noteq> d2"
proof -
  from assms obtain r1 r2 rs where d: "draws e = r1 # r2 # rs"
    by (auto simp: newQuestion_def split: list.splits)
  define a where "a = randInt r1 10 + randInt r2 10"
  from assms d obtain opts where f: "fillOptions a [a] rs = Some opts"
    and q: "q = \<lparr>num1 = randInt r1 10, num2 = randInt r2 10, answer = a, options = shuffle e opts\<rparr>"
    by (auto simp: newQuestion_def setAdd_def Let_def a_def split: option.splits)
  from fillOptions_inv[OF f] obtain ys where inv: "distinct opts" "length opts = 3" "opts = a # ys" "a \<notin> set ys"
    by auto
  then obtain d1 d2 where ys: "ys = [d1, d2]"
    by (cases ys; cases "tl ys"; auto)
  with inv have ne: "d1 \<noteq> a" "d2 \<noteq> a" "d1 \<noteq> d2" by auto
  have qs: "num1 q = randInt r1 10" "num2 q = randInt r2 10" "answer q = a"
    "options q = shuffle e [a, d1, d2]"
    using q inv(3) ys by simp_all
  have "draws e = r1 # r2 # rs \<and> num1 q = randInt r1 10 \<and> num2 q = randInt r2 10
     \<and> answer q = num1 q + num2 q \<and> options q = shuffle e [answer q, d1, d2]
     \<and> fillOptions (answer q) [answer q] rs = Some [answer q, d1, d2]
     \<and> d1 \<noteq> answer q \<and> d2 \<noteq> answer q \<and> d1 \<noteq> d2"
    using d f ne inv(3) ys qs by (simp add: a_def)
  then show ?thesis by blast
qed

lemma newQuestion_returns:
  assumes "draws e = r1 # r2 # rs"
    and "2 \<le> card ((\<lambda>r. randInt r 20) ` set rs - {randInt r1 10 + randInt r2 10})"
  shows "\<exists>q. newQuestion e = Some q"
proof -
  define a where "a = randInt r1 10 + randInt r2 10"
  have "3 - length [a] \<le> card ((\<lambda>r. randInt r 20) ` set rs - insert a (set [a]))"
    using assms(2) by (simp add: a_def)
  from fillOptions_returns[OF _ this] obtain res where "fillOptions a [a] rs = Some res"
    by auto
  then show ?thesis
    using assms(1) by (simp add: newQuestion_def setAdd_def a_def Let_def)
qed

lemma roundDouble_examples:
  "roundDouble (5 / 2) = 5 / 2" "roundDouble (15 / 4) = 15 / 4"
  "roundDouble (45 / 4) = 45 / 4" "roundDouble (45 / 8) = 45 / 8"
  "roundDouble (25 / 4) = 25 / 4"
proof -
  show "roundDouble (5 / 2) = 5 / 2"
    by (rule roundDouble_exact[where m = 1 and k = "5 * 2 ^ 50"]) (simp_all add: pow2_def)
  show "roundDouble (15 / 4) = 15 / 4"
    by (rule roundDouble_exact[where m = 1 and k = "15 * 2 ^ 49"]) (simp_all add: pow2_def)
  show "roundDouble (45 / 4) = 45 / 4"
    by (rule roundDouble_exact[where m = 3 and k = "45 * 2 ^ 47"]) (simp_all add: pow2_def)
  show "roundDouble (45 / 8) = 45 / 8"
    by (rule roundDouble_exact[where m = 2 and k = "45 * 2 ^ 47"]) (simp_all add: pow2_def)
  show "roundDouble (25 / 4) = 25 / 4"
    by (rule roundDouble_exact[where m = 2 and k = "25 * 2 ^ 48"]) (simp_all add: pow2_def)
qed

lemma isDouble_examples:
  "isDouble (1 / 4)" "isDouble (3 / 8)" "isDouble (9 / 16)" "isDouble (1 / 8)"
  "isDouble (5 / 16)"
proof -
  show "isDouble (1 / 4)" unfolding isDouble_def
    by (rule roundDouble_exact[where m = "- 2" and k = "2 ^ 52"]) (simp_all add: pow2_def)
  show "isDouble (3 / 8)" unfolding isDouble_def
    by (rule roundDouble_exact[where m = "- 2" and k = "3 * 2 ^ 51"]) (simp_all add: pow2_def)
  show "isDouble (9 / 16)" unfolding isDouble_def
    by (rule roundDouble_exact[where m = "- 1" and k = "9 * 2 ^ 49"]) (simp_all add: pow2_def)
  show "isDouble (1 / 8)" unfolding isDouble_def
    by (rule roundDouble_exact[where m = "- 3" and k = "2 ^ 52"]) (simp_all add: pow2_def)
  show "isDouble (5 / 16)" unfolding isDouble_def
    by (rule roundDouble_exact[where m = "- 2" and k = "5 * 2 ^ 50"]) (simp_all add: pow2_def)
qed

lemma randInt_examples:
  "randInt (1 / 4) 10 = 3" "randInt (3 / 8) 10 = 4" "randInt (9 / 16) 20 = 12"
  "randInt (1 / 8) 20 = 3" "randInt (9 / 16) 10 = 6" "randInt (5 / 16) 20 = 7"
proof -
  show "randInt (1 / 4) 10 = 3"
    by (rule randInt_exact[OF _ roundDouble_examples(1)]) simp_all
  show "randInt (3 / 8) 10 = 4"
    by (rule randInt_exact[OF _ roundDouble_examples(2)]) simp_all
  show "randInt (9 / 16) 20 = 12"
    by (rule randInt_exact[OF _ roundDouble_examples(3)]) simp_all
  show "randInt (1 / 8) 20 = 3"
    by (rule randInt_exact[OF _ roundDouble_examples(1)]) simp_all
  show "randInt (9 / 16) 10 = 6"
    by (rule randInt_exact[OF _ roundDouble_examples(4)]) simp_all
  show "randInt (5 / 16) 20 = 7"
    by (rule randInt_exact[OF _ roundDouble_examples(5)]) simp_all
qed

lemma newQuestion_example: "newQuestion exampleEntropy = Some exampleQuestion"
  by (simp add: newQuestion_def exampleEntropy_def exampleQuestion_def randInt_examples
      setAdd_def)

lemma newQuestion_other: "newQuestion otherEntropy = Some otherQuestion"
  by (simp add: newQuestion_def otherEntropy_def otherQuestion_def randInt_examples
      setAdd_def)

lemma generateQuestion_currentQuestion:
  "generateQuestion e s = Some s' \<Longrightarrow> currentQuestion s' = newQuestion e"
  by (auto simp: generateQuestion_def split: option.splits)

lemma generateQuestion_eq:
  "newQuestion e = Some q \<Longrightarrow>
   generateQuestion e s = Some (s\<lparr>currentQuestion := Some q, ballPosition := (12, 58), feedback := None,
                  isKicking := False, kickerFrame := 1, showKicker := True\<rparr>)"
  by (simp add: generateQuestion_def)

text \<open>
  Claim C1. Every question that \<^verbatim>\<open>generateQuestion\<close> produces has
  \<open>answer = num1 + num2\<close> with both operands between 1 and 10, and its options are
  exactly three distinct values: the answer, once, and two distractors that differ from
  the answer and from each other. The draws are results of \<^verbatim>\<open>Math.random()\<close>,
  that is, doubles in \<open>[0, 1)\<close>, and sorting rearranges the array it is given.
\<close>

theorem generateQuestion_invariants:
  assumes rng: "\<forall>r\<in>set (draws e). isDouble r \<and> 0 \<le> r \<and> r < 1"
    and perm: "\<forall>xs. mset (shuffle e xs) = mset xs"
    and gen: "generateQuestion e s = Some s'"
  shows "\<exists>q d1 d2. currentQuestion s' = Some q \<and> answer q = num1 q + num2 q
     \<and> 1 \<le> num1 q \<and> num1 q \<le> 10 \<and> 1 \<le> num2 q \<and> num2 q \<le> 10
     \<and> length (options q) = 3 \<and> distinct (options q) \<and> card (set (options q)) = 3
     \<and> count_list (options q) (answer q) = 1
     \<and> mset (options q) = {#answer q, d1, d2#}
     \<and> d1 \<noteq> answer q \<and> d2 \<noteq> answer q \<and> d1 \<noteq> d2"
proof -
  from gen obtain q where cq: "currentQuestion s' = Some q" and nq: "newQuestion e = Some q"
    using generateQuestion_currentQuestion[OF gen]
    by (cases "newQuestion e") (auto simp: generateQuestion_def)
  from newQuestion_shape[OF nq] obtain r1 r2 rs d1 d2 where
    sh: "draws e = r1 # r2 # rs" "num1 q = randInt r1 10" "num2 q = randInt r2 10"
      "answer q = num1 q + num2 q" "options q = shuffle e [answer q, d1, d2]"
      "d1 \<noteq> answer q" "d2 \<noteq> answer q" "d1 \<noteq> d2"
    by blast
  have r1: "isDouble r1" "0 \<le> r1" "r1 < 1" and r2: "isDouble r2" "0 \<le> r2" "r2 < 1"
    using rng sh(1) by simp_all
  have n1: "1 \<le> num1 q \<and> num1 q \<le> 10"
    using randInt_range_10[OF r1] sh(2) by simp
  have n2: "1 \<le> num2 q \<and> num2 q \<le> 10"
    using randInt_range_10[OF r2] sh(3) by simp
  have ms: "mset (options q) = {#answer q, d1, d2#}"
    using perm sh(5) by simp
  have dist: "distinct (options q)"
    using ms sh(6,7,8) by (metis distinct.simps(1,2) empty_iff insert_iff list.set(1,2) mset.simps(1,2) mset_eq_imp_distinct_iff)
  have len: "length (options q) = 3"
    using ms by (metis size_mset size_add_mset size_empty numeral_3_eq_3)
  have card: "card (set (options q)) = 3"
    using dist len by (simp add: distinct_card)
  have cnt: "count_list (options q) (answer q) = 1"
    using ms sh(6,7) by (metis count_mset count_add_mset count_empty add_cancel_right_left One_nat_def Suc_eq_plus1)
  show ?thesis
    using cq sh(4,6,7,8) n1 n2 ms dist len card cnt by blast
qed

theorem generateQuestion_invariants_witness:
  "\<exists>q d1 d2. currentQuestion (initialGame\<lparr>currentQuestion := Some exampleQuestion\<rparr>) = Some q
     \<and> answer q = num1 q + num2 q
     \<and> 1 \<le> num1 q \<and> num1 q \<le> 10 \<and> 1 \<le> num2 q \<and> num2 q \<le> 10
     \<and> length (options q) = 3 \<and> distinct (options q) \<and> card (set (options q)) = 3
     \<and> count_list (options q) (answer q) = 1
     \<and> mset (options q) = {#answer q, d1, d2#}
     \<and> d1 \<noteq> answer q \<and> d2 \<noteq> answer q \<and> d1 \<noteq> d2"
proof -
  have h1: "\<forall>r\<in>set (draws exampleEntropy). isDouble r \<and> 0 \<le> r \<and> r < 1"
    by (simp add: exampleEntropy_def isDouble_examples)
  have h2: "\<forall>xs. mset (shuffle exampleEntropy xs) = mset xs"
    by (simp add: exampleEntropy_def)
  have h3: "generateQuestion exampleEntropy initialGame
      = Some (initialGame\<lparr>currentQuestion := Some exampleQuestion\<rparr>)"
    by (simp add: generateQuestion_def newQuestion_example initialGame_def)
  show ?thesis
    by (rule generateQuestion_invariants[OF h1 h2 h3])
qed

text \<open>
  Claim C10. Every option of a generated question lies between 1 and 20: the answer lies
  between 2 and 20, and every distractor is the floor of the rounded product \<open>20 r\<close>,
  plus 1, for a draw \<open>r\<close>, a double in \<open>[0, 1)\<close>.
\<close>

theorem generateQuestion_options_range:
  assumes rng: "\<forall>r\<in>set (draws e). isDouble r \<and> 0 \<le> r \<and> r < 1"
    and perm: "\<forall>xs. mset (shuffle e xs) = mset xs"
    and gen: "generateQuestion e s = Some s'"
  shows "\<exists>q. currentQuestion s' = Some q \<and> 2 \<le> answer q \<and> answer q \<le> 20
           \<and> (\<forall>v\<in>set (options q). 1 \<le> v \<and> v \<le> 20)"
proof -
  from gen obtain q where cq: "currentQuestion s' = Some q" and nq: "newQuestion e = Some q"
    using generateQuestion_currentQuestion[OF gen]
    by (cases "newQuestion e") (auto simp: generateQuestion_def)
  from newQuestion_shape[OF nq] obtain r1 r2 rs d1 d2 where
    sh: "draws e = r1 # r2 # rs" "num1 q = randInt r1 10" "num2 q = randInt r2 10"
      "answer q = num1 q + num2 q" "options q = shuffle e [answer q, d1, d2]"
      "fillOptions (answer q) [answer q] rs = Some [answer q, d1, d2]"
    by blast
  have r1: "isDouble r1" "0 \<le> r1" "r1 < 1" and r2: "isDouble r2" "0 \<le> r2" "r2 < 1"
    using rng sh(1) by simp_all
  have n1: "1 \<le> num1 q \<and> num1 q \<le> 10"
    using randInt_range_10[OF r1] sh(2) by simp
  have n2: "1 \<le> num2 q \<and> num2 q \<le> 10"
    using randInt_range_10[OF r2] sh(3) by simp
  have ans: "2 \<le> answer q \<and> answer q \<le> 20"
    using n1 n2 sh(4) by simp
  have sub: "set [answer q, d1, d2] \<subseteq> set [answer q] \<union> (\<lambda>r. randInt r 20) ` set rs"
    by (rule fillOptions_subset[OF sh(6)])
  have dr: "1 \<le> randInt r 20 \<and> randInt r 20 \<le> 20" if "r \<in> set rs" for r
  proof -
    from that rng sh(1) have "isDouble r" "0 \<le> r" "r < 1" by simp_all
    then show ?thesis by (rule randInt_range_20)
  qed
  have "set (options q) = set [answer q, d1, d2]"
    using perm sh(5) by (metis mset_eq_setD)
  then have "1 \<le> v \<and> v \<le> 20" if "v \<in> set (options q)" for v
    using that sub ans dr by auto
  with cq ans show ?thesis by blast
qed

theorem generateQuestion_options_range_witness:
  "\<exists>q. currentQuestion mountedGame = Some q \<and> 2 \<le> answer q \<and> answer q \<le> 20
      \<and> list_all (\<lambda>v. 1 \<le> v \<and> v \<le> 20) (options q)"
proof -
  have h1: "\<forall>r\<in>set (draws exampleEntropy). isDouble r \<and> 0 \<le> r \<and> r < 1"
    by (simp add: exampleEntropy_def isDouble_examples)
  have h2: "\<forall>xs. mset (shuffle exampleEntropy xs) = mset xs"
    by (simp add: exampleEntropy_def)
  have h3: "generateQuestion exampleEntropy (initialGame\<lparr>showHelp := True, isPaused := True\<rparr>)
      = Some mountedGame"
    by (simp add: generateQuestion_def newQuestion_example initialGame_def mountedGame_def)
  show ?thesis
    using generateQuestion_options_range[OF h1 h2 h3] by (simp add: list_all_iff)
qed

lemma mount_example: "mount exampleEntropy = Some mountedGame"
  by (simp add: mount_def generateQuestion_def newQuestion_example mountedGame_def
      initialGame_def)

lemma closeHelp_example: "closeHelp exampleEntropy mountedGame = Some playingGame"
  by (simp add: closeHelp_def startGame_def generateQuestion_def newQuestion_example
      mountedGame_def playingGame_def initialGame_def)

section \<open>Charging, tiers and release\<close>

text \<open>
  Claim C2. On release the power is mapped to a tier by fixed thresholds (at most 33:
  index 0; 34 to 66: index 1; above 66: index 2), and the kick that is launched carries
  that index and the option displayed at that position.
\<close>

theorem handleKeyUp_tier:
  assumes "\<not> isKicking s" "\<not> isPaused s" "gameState s = Playing"
    and "currentQuestion s = Some q" "length (options q) = 3"
  shows "\<exists>k. kicks (handleKeyUp s) = kicks s @ [k]
           \<and> kIndex k = specTier (kickPower s)
           \<and> selectedAnswer k = options q ! specTier (kickPower s)
           \<and> stage k = Windup \<and> isKicking (handleKeyUp s)"
  using assms by (simp add: handleKeyUp_def handleAnswer_def specTier_def Let_def)

theorem handleKeyUp_tier_witness:
  "\<exists>k. kicks (handleKeyUp chargedGame) = [k] \<and> kIndex k = 1 \<and> selectedAnswer k = 12
      \<and> stage k = Windup \<and> isKicking (handleKeyUp chargedGame)"
proof -
  have h: "\<not> isKicking chargedGame" "\<not> isPaused chargedGame" "gameState chargedGame = Playing"
    "currentQuestion chargedGame = Some exampleQuestion" "length (options exampleQuestion) = 3"
    by (simp_all add: chargedGame_def playingGame_def initialGame_def exampleQuestion_def)
  have sp: "specTier (kickPower chargedGame) = 1"
    by (simp add: specTier_def chargedGame_def)
  have ks: "kicks chargedGame = []"
    by (simp add: chargedGame_def playingGame_def initialGame_def)
  have op: "options exampleQuestion ! 1 = 12"
    by (simp add: exampleQuestion_def)
  show ?thesis
    using handleKeyUp_tier[OF h] by (simp only: sp ks op append_Nil)
qed

lemma chargedGame_reached:
  "run [KeyDown, ChargeTick, ChargeTick, ChargeTick, ChargeTick, ChargeTick, ChargeTick,
        ChargeTick, ChargeTick, ChargeTick] playingGame = Some chargedGame"
  by (simp add: handleKeyDown_def chargeTick_def Let_def chargedGame_def playingGame_def
      initialGame_def)

lemma chargeTick_step:
  "chargeInterval s \<Longrightarrow>
   chargeInterval (chargeTick s)
   \<and> kickPower (chargeTick s) = (if kickPower s < 100 then kickPower s + 4 else 100)"
  by (simp add: chargeTick_def Let_def)

lemma power_arith:
  "(if min (4 * k) 100 < (100::int) then min (4 * k) 100 + 4 else 100) = min (4 * (k + 1)) 100"
proof (cases "4 * k < 100")
  case True
  then have "4 * k \<le> 96" by presburger
  with True show ?thesis by simp
next
  case False
  then show ?thesis by simp
qed

lemma chargeTick_iter:
  "chargeInterval s \<Longrightarrow> kickPower s = min (4 * int m) 100 \<Longrightarrow>
   chargeInterval ((chargeTick ^^ n) s) \<and> kickPower ((chargeTick ^^ n) s) = min (4 * int (m + n)) 100"
proof (induction n)
  case 0
  then show ?case by simp
next
  case (Suc n)
  define s' where "s' = (chargeTick ^^ n) s"
  define k where "k = int (m + n)"
  from Suc have ih: "chargeInterval s'" "kickPower s' = min (4 * k) 100"
    by (simp_all add: s'_def k_def)
  have k1: "int (m + Suc n) = k + 1" by (simp add: k_def)
  have "kickPower (chargeTick s') = (if min (4 * k) 100 < 100 then min (4 * k) 100 + 4 else 100)"
    using chargeTick_step[OF ih(1)] by (simp only: ih(2))
  also have "\<dots> = min (4 * (k + 1)) 100" by (rule power_arith)
  finally have "kickPower (chargeTick s') = min (4 * int (m + Suc n)) 100"
    by (simp only: k1)
  moreover have "(chargeTick ^^ Suc n) s = chargeTick s'" by (simp add: s'_def)
  ultimately show ?case using chargeTick_step[OF ih(1)] by simp
qed

text \<open>
  Claim C6. While the key is held, the power after \<open>n\<close> ticks of the charge interval
  is \<open>min (4 n) 100\<close>: it never decreases and stays within 0 and 100. A release before
  the first tick carries power 0 and launches the kick at the near tier, index 0.
\<close>

theorem charge_power_monotone_bounded:
  assumes "\<not> isKicking s" "\<not> isPaused s" "gameState s = Playing"
    and "currentQuestion s = Some q" "options q \<noteq> []"
  shows "kickPower ((chargeTick ^^ n) (handleKeyDown s)) = min (4 * int n) 100
       \<and> 0 \<le> kickPower ((chargeTick ^^ n) (handleKeyDown s))
       \<and> kickPower ((chargeTick ^^ n) (handleKeyDown s)) \<le> 100
       \<and> kickPower ((chargeTick ^^ n) (handleKeyDown s))
            \<le> kickPower ((chargeTick ^^ Suc n) (handleKeyDown s))
       \<and> kickPower (handleKeyDown s) = 0
       \<and> (\<exists>k. kicks (handleKeyUp (handleKeyDown s)) = kicks s @ [k] \<and> kIndex k = 0
              \<and> selectedAnswer k = options q ! 0)"
proof -
  have kd: "chargeInterval (handleKeyDown s)" "kickPower (handleKeyDown s) = min (4 * int 0) 100"
    using assms(1-3) by (simp_all add: handleKeyDown_def)
  have p: "kickPower ((chargeTick ^^ m) (handleKeyDown s)) = min (4 * int m) 100" for m
    using chargeTick_iter[OF kd, of m] by simp
  have rel: "\<exists>k. kicks (handleKeyUp (handleKeyDown s)) = kicks s @ [k] \<and> kIndex k = 0
              \<and> selectedAnswer k = options q ! 0"
    using assms by (simp add: handleKeyDown_def handleKeyUp_def handleAnswer_def Let_def)
  have mono: "kickPower ((chargeTick ^^ n) (handleKeyDown s))
            \<le> kickPower ((chargeTick ^^ Suc n) (handleKeyDown s))"
    unfolding p by simp
  have "kickPower (handleKeyDown s) = 0" using kd(2) by simp
  with rel mono show ?thesis
    by (simp only: p) simp
qed

theorem charge_power_monotone_bounded_witness:
  "kickPower ((chargeTick ^^ 9) (handleKeyDown playingGame)) = 36
   \<and> kickPower ((chargeTick ^^ 9) (handleKeyDown playingGame))
        \<le> kickPower ((chargeTick ^^ Suc 9) (handleKeyDown playingGame))
   \<and> kickPower (handleKeyDown playingGame) = 0
   \<and> (\<exists>k. kicks (handleKeyUp (handleKeyDown playingGame)) = kicks playingGame @ [k]
          \<and> kIndex k = 0 \<and> selectedAnswer k = options exampleQuestion ! 0)"
proof -
  have h: "\<not> isKicking playingGame" "\<not> isPaused playingGame" "gameState playingGame = Playing"
    "currentQuestion playingGame = Some exampleQuestion" "options exampleQuestion \<noteq> []"
    by (simp_all add: playingGame_def initialGame_def exampleQuestion_def)
  show ?thesis
    using charge_power_monotone_bounded[OF h, of 9] by simp
qed

text \<open>
  The same bounds hold in every execution, whatever the order of key presses, ticks,
  pauses and resets: the power is a multiple of 4 between 0 and 100.
\<close>

lemma generateQuestion_fields:
  "generateQuestion e s = Some s' \<Longrightarrow>
   gameState s' = gameState s \<and> score s' = score s \<and> questionIndex s' = questionIndex s
   \<and> kicks s' = kicks s \<and> kickPower s' = kickPower s \<and> isPaused s' = isPaused s
   \<and> \<not> isKicking s'"
  by (cases "newQuestion e") (auto simp: generateQuestion_def)

lemma mult4_step: "4 dvd (k::int) \<Longrightarrow> k < 100 \<Longrightarrow> k + 4 \<le> 100"
  by presburger

lemma powerOk_chargeTick: "powerOk s \<Longrightarrow> powerOk (chargeTick s)"
  using mult4_step[of "kickPower s"] by (simp add: powerOk_def chargeTick_def Let_def)

lemma powerOk_handleKeyDown: "powerOk s \<Longrightarrow> powerOk (handleKeyDown s)"
  by (simp add: powerOk_def handleKeyDown_def)

lemma powerOk_handleKeyUp: "powerOk s \<Longrightarrow> powerOk (handleKeyUp s)"
  by (simp add: powerOk_def handleKeyUp_def Let_def)

lemma powerOk_kickTimer: "powerOk s \<Longrightarrow> powerOk (kickTimer i s)"
  by (simp add: powerOk_def kickTimer_def)

lemma powerOk_animateBall: "powerOk s \<Longrightarrow> powerOk (animateBall i el s)"
  by (simp add: powerOk_def animateBall_def finishKick_def Let_def)

lemma powerOk_afterFeedback: "powerOk s \<Longrightarrow> afterFeedback e i s = Some s' \<Longrightarrow> powerOk s'"
  by (auto simp: powerOk_def afterFeedback_def Let_def split: if_splits
      dest!: generateQuestion_fields)

lemma powerOk_closeHelp: "powerOk s \<Longrightarrow> closeHelp e s = Some s' \<Longrightarrow> powerOk s'"
  by (auto simp: powerOk_def closeHelp_def startGame_def split: if_splits option.splits
      dest!: generateQuestion_fields)

lemma powerOk_resetRound: "resetRound e s = Some s' \<Longrightarrow> powerOk s'"
  by (auto simp: powerOk_def resetRound_def split: option.splits)

lemma powerOk_others:
  "powerOk s \<Longrightarrow> powerOk (togglePause s)"
  "powerOk s \<Longrightarrow> powerOk (openHelp s)"
  "powerOk s \<Longrightarrow> powerOk (secondTick s)"
  by (simp_all add: powerOk_def togglePause_def openHelp_def secondTick_def Let_def)

lemma powerOk_step:
  assumes "powerOk s" "step ev s = Some s'"
  shows "powerOk s'"
proof (cases ev)
  case (AfterFeedback e i)
  with assms show ?thesis by (auto intro: powerOk_afterFeedback)
next
  case (CloseHelp e)
  with assms show ?thesis by (auto intro: powerOk_closeHelp)
next
  case (ResetRound e)
  with assms show ?thesis by (auto intro: powerOk_resetRound)
qed (use assms in \<open>auto simp: powerOk_chargeTick powerOk_handleKeyDown powerOk_handleKeyUp
      powerOk_kickTimer powerOk_animateBall powerOk_others\<close>)

lemma powerOk_run: "powerOk s \<Longrightarrow> run evs s = Some s' \<Longrightarrow> powerOk s'"
proof (induction evs arbitrary: s)
  case Nil
  then show ?case by simp
next
  case (Cons ev evs)
  then show ?case by (auto split: option.splits dest: powerOk_step)
qed

section \<open>The kick animation and its outcome\<close>

lemma target_cases: "target idx = (40, 50) \<or> target idx = (65, 50) \<or> target idx = (90, 50)"
proof -
  have "idx mod 3 = 0 \<or> idx mod 3 = 1 \<or> idx mod 3 = 2" by arith
  then show ?thesis by (auto simp: target_def GOAL_POSITIONS_def)
qed

text \<open>
  Claim C8 says that the parameter is \<open>elapsed / 800\<close> clamped to \<open>[0, 1]\<close>. The source
  caps it at 1 and has no lower clamp, and the time stamp of an animation frame may lie
  before the start time read in the timer callback: 80 ms before the start the parameter
  is \<open>-1/10\<close> and the ball is put at \<open>(46/5, 1712/25)\<close>, behind the start point
  \<open>(12, 58)\<close>, which is where the clamped parameter 0 would put it.
\<close>

theorem animateBall_lower_clamp_counterexample:
  "progress (- 80) = - 1 / 10
   \<and> clamp01 (- 80 / 800) = 0
   \<and> ballStyle (animateBall 0 (- 80) flyingGame) = Some (46 / 5, 1712 / 25)
   \<and> quadBezier startPos (controlPos 0) (target 0) (clamp01 (- 80 / 800)) = (12, 58)
   \<and> ballStyle (animateBall 0 (- 80) flyingGame)
       \<noteq> Some (quadBezier startPos (controlPos (kIndex exampleKick))
                 (target (kIndex exampleKick)) (clamp01 (- 80 / 800)))"
proof -
  have p: "progress (- 80) = - 1 / 10"
    by (simp add: progress_def ANIMATION_DURATION_def)
  have c: "clamp01 (- 80 / 800) = 0"
    by (simp add: clamp01_def)
  have k: "kIndex exampleKick = 0" by (simp add: exampleKick_def)
  have b: "ballStyle (animateBall 0 (- 80) flyingGame) = Some (ballAt 0 (- 1 / 10))"
    using p by (simp add: animateBall_def flyingGame_def exampleKick_def Let_def)
  have a: "ballAt 0 (- 1 / 10) = (46 / 5, 1712 / 25)"
    by (simp add: ballAt_def startPos_def controlPos_def target_def GOAL_POSITIONS_def
        power2_eq_square)
  have q: "quadBezier startPos (controlPos 0) (target 0) 0 = (12, 58)"
    by (simp add: quadBezier_def startPos_def)
  have b': "ballStyle (animateBall 0 (- 80) flyingGame) = Some (46 / 5, 1712 / 25)"
    by (simp only: b a)
  have q': "quadBezier startPos (controlPos 0) (target 0) (clamp01 (- 80 / 800)) = (12, 58)"
    by (simp only: c q)
  have "(46 / 5, 1712 / 25) \<noteq> (12 :: real, 58 :: real)" by simp
  then have ne: "ballStyle (animateBall 0 (- 80) flyingGame)
       \<noteq> Some (quadBezier startPos (controlPos (kIndex exampleKick))
                 (target (kIndex exampleKick)) (clamp01 (- 80 / 800)))"
    by (simp only: b' k q' option.inject not_False_eq_True)
  show ?thesis
    using p c b' q' ne by blast
qed

text \<open>
  Claim C8, amended. The animation runs until the first frame at which 800 ms have
  elapsed, and that frame puts the ball on the target. At a frame, the parameter is
  \<open>elapsed / 800\<close> capped at 1, which is \<open>elapsed / 800\<close> clamped to \<open>[0, 1]\<close> when
  the elapsed time is not negative, and the ball is put at the point of the quadratic
  B\'ezier curve from the start point \<open>(12, 58)\<close> to the goal position of the chosen
  tier, whose control point lies horizontally midway between the two and higher on the
  screen than both (the vertical axis points down).
\<close>

theorem animateBall_bezier_capped:
  assumes "i < length (kicks s)" "kicks s ! i = k" "stage k = Flying"
  shows "ballStyle (animateBall i elapsed s)
           = Some (quadBezier startPos (controlPos (kIndex k)) (target (kIndex k))
                     (min (elapsed / 800) 1))
       \<and> (0 \<le> elapsed \<longrightarrow> min (elapsed / 800) 1 = clamp01 (elapsed / 800))
       \<and> startPos = (12, 58)
       \<and> target (kIndex k) = GOAL_POSITIONS ! (kIndex k mod 3)
       \<and> fst (controlPos (kIndex k)) = (fst startPos + fst (target (kIndex k))) / 2
       \<and> snd (controlPos (kIndex k)) < snd startPos
       \<and> snd (controlPos (kIndex k)) < snd (target (kIndex k))
       \<and> (stage (kicks (animateBall i elapsed s) ! i) = Flying \<longleftrightarrow> elapsed < 800)
       \<and> (stage (kicks (animateBall i elapsed s) ! i) = Landed \<longleftrightarrow> 800 \<le> elapsed)
       \<and> (800 \<le> elapsed \<longrightarrow> ballStyle (animateBall i elapsed s) = Some (target (kIndex k)))"
proof -
  have pr: "progress elapsed = min (elapsed / 800) 1"
    by (simp add: progress_def ANIMATION_DURATION_def)
  have cl: "min (elapsed / 800) 1 = clamp01 (elapsed / 800)" if "0 \<le> elapsed"
    using that by (simp add: clamp01_def min_def max_def)
  have lt: "progress elapsed < 1 \<longleftrightarrow> elapsed < 800"
    by (simp add: progress_def ANIMATION_DURATION_def min_def)
  have b: "ballAt idx t = quadBezier startPos (controlPos idx) (target idx) t" for idx t
    by (simp add: ballAt_def quadBezier_def)
  have bs: "ballStyle (animateBall i elapsed s) = Some (ballAt (kIndex k) (progress elapsed))"
    using assms(1-3) by (simp add: animateBall_def Let_def finishKick_def)
  have st: "stage (kicks (animateBall i elapsed s) ! i) = (if elapsed < 800 then Flying else Landed)"
    using assms(1-3) lt by (simp add: animateBall_def Let_def finishKick_def)
  have tg: "snd (target (kIndex k)) = 50"
    using target_cases[of "kIndex k"] by auto
  have en: "ballStyle (animateBall i elapsed s) = Some (target (kIndex k))" if "800 \<le> elapsed"
  proof -
    from that have "progress elapsed = 1"
      by (simp add: progress_def ANIMATION_DURATION_def)
    then show ?thesis by (simp add: bs ballAt_def)
  qed
  have "ballStyle (animateBall i elapsed s)
           = Some (quadBezier startPos (controlPos (kIndex k)) (target (kIndex k))
                     (min (elapsed / 800) 1))"
    by (simp only: bs b pr)
  moreover have "startPos = (12, 58)" by (simp add: startPos_def)
  moreover have "target (kIndex k) = GOAL_POSITIONS ! (kIndex k mod 3)"
    by (simp add: target_def GOAL_POSITIONS_def)
  moreover have "fst (controlPos (kIndex k)) = (fst startPos + fst (target (kIndex k))) / 2"
    by (simp add: controlPos_def)
  moreover have "snd (controlPos (kIndex k)) < snd startPos"
    by (simp add: controlPos_def startPos_def)
  moreover have "snd (controlPos (kIndex k)) < snd (target (kIndex k))"
    by (simp add: controlPos_def tg)
  moreover have "stage (kicks (animateBall i elapsed s) ! i) = Flying \<longleftrightarrow> elapsed < 800"
    by (simp add: st)
  moreover have "stage (kicks (animateBall i elapsed s) ! i) = Landed \<longleftrightarrow> 800 \<le> elapsed"
    by (simp add: st not_less)
  ultimately show ?thesis using en cl by blast
qed

theorem animateBall_bezier_capped_witness:
  "ballStyle (animateBall 0 400 flyingGame) = Some (26, 32)
   \<and> stage (kicks (animateBall 0 400 flyingGame) ! 0) = Flying
   \<and> min (400 / 800) (1::real) = 1 / 2
   \<and> clamp01 (400 / 800) = 1 / 2
   \<and> quadBezier startPos (controlPos 0) (target 0) (1 / 2) = (26, 32)
   \<and> ballStyle (animateBall 0 800 flyingGame) = Some (40, 50)
   \<and> stage (kicks (animateBall 0 800 flyingGame) ! 0) = Landed"
proof -
  have h: "0 < length (kicks flyingGame)" "kicks flyingGame ! 0 = exampleKick"
    "stage exampleKick = Flying"
    by (simp_all add: flyingGame_def exampleKick_def)
  have m: "min (400 / 800) (1::real) = 1 / 2" by simp
  have c: "clamp01 (400 / 800) = 1 / 2"
    by (simp add: clamp01_def)
  have q: "quadBezier startPos (controlPos 0) (target 0) (1 / 2) = (26, 32)"
    by (simp add: quadBezier_def startPos_def controlPos_def target_def GOAL_POSITIONS_def
        power2_eq_square)
  have k: "kIndex exampleKick = 0" by (simp add: exampleKick_def)
  have t: "target 0 = (40, 50)" by (simp add: target_def GOAL_POSITIONS_def)
  note T = animateBall_bezier_capped[OF h, of 400]
  note U = animateBall_bezier_capped[OF h, of 800]
  from T have a: "ballStyle (animateBall 0 400 flyingGame)
           = Some (quadBezier startPos (controlPos (kIndex exampleKick))
                     (target (kIndex exampleKick)) (min (400 / 800) 1))"
    by (rule conjunct1)
  from T have b: "stage (kicks (animateBall 0 400 flyingGame) ! 0) = Flying \<longleftrightarrow> (400::real) < 800"
    by blast
  from U have d: "(800::real) \<le> 800 \<longrightarrow>
      ballStyle (animateBall 0 800 flyingGame) = Some (target (kIndex exampleKick))"
    by blast
  from U have e: "stage (kicks (animateBall 0 800 flyingGame) ! 0) = Landed \<longleftrightarrow> (800::real) \<le> 800"
    by blast
  have a': "ballStyle (animateBall 0 400 flyingGame) = Some (26, 32)"
    by (simp only: a k m q)
  have b': "stage (kicks (animateBall 0 400 flyingGame) ! 0) = Flying"
    using b by simp
  have d': "ballStyle (animateBall 0 800 flyingGame) = Some (40, 50)"
    using d by (simp add: k t)
  have e': "stage (kicks (animateBall 0 800 flyingGame) ! 0) = Landed"
    using e by simp
  show ?thesis
    using a' b' m c q d' e' by blast
qed

lemma flyingGame_reached: "run [KeyDown, KeyUp, KickTimer 0] playingGame = Some flyingGame"
  by (simp add: handleKeyDown_def handleKeyUp_def handleAnswer_def kickTimer_def Let_def
      flyingGame_def exampleKick_def playingGame_def initialGame_def exampleQuestion_def)

text \<open>
  The outcome of a kick whose question and question index are still those of its launch,
  which is the case as long as no reset and no callback of another kick replaced them
  in between: a selected value equal to the answer gives score + 1 and the feedback
  \<open>Correct\<close>, any other value the feedback \<open>Incorrect\<close> and the same score; the
  1500 ms callback then generates the next question with the index incremented, or sets
  the phase \<open>Finished\<close> when the index is \<open>QUESTION_COUNT - 1\<close>.
\<close>

lemma kick_resolution_when_current:
  assumes "i < length (kicks s)" "kicks s ! i = k" "stage k = Flying"
    and "currentQuestion s = Some q" "capturedQuestion k = currentQuestion s"
    and "capturedIndex k = questionIndex s"
    and "ANIMATION_DURATION \<le> elapsed"
    and "s1 = animateBall i elapsed s"
  shows "(selectedAnswer k = answer q \<longrightarrow> score s1 = score s + 1 \<and> feedback s1 = Some Correct)
       \<and> (selectedAnswer k \<noteq> answer q \<longrightarrow> score s1 = score s \<and> feedback s1 = Some Incorrect)
       \<and> (questionIndex s < QUESTION_COUNT - 1 \<longrightarrow>
            (\<forall>q'. newQuestion e = Some q' \<longrightarrow>
               (\<exists>s2. afterFeedback e i s1 = Some s2 \<and> questionIndex s2 = questionIndex s + 1
                   \<and> currentQuestion s2 = Some q' \<and> gameState s2 = gameState s
                   \<and> score s2 = score s1)))
       \<and> (QUESTION_COUNT - 1 \<le> questionIndex s \<longrightarrow>
            (\<exists>s2. afterFeedback e i s1 = Some s2 \<and> gameState s2 = Finished
                \<and> questionIndex s2 = questionIndex s \<and> score s2 = score s1))"
proof -
  have pr: "\<not> progress elapsed < 1"
    using assms(7) by (simp add: progress_def ANIMATION_DURATION_def)
  define k' where "k' = k\<lparr>stage := Landed\<rparr>"
  have s1: "s1 = finishKick k (s\<lparr>ballStyle := Some (ballAt (kIndex k) (progress elapsed)),
                                kicks := (kicks s)[i := k']\<rparr>)"
    using assms(1-3,8) pr by (simp add: animateBall_def Let_def k'_def)
  have sc: "score s1 = (if selectedAnswer k = answer q then score s + 1 else score s)"
    and fb: "feedback s1 = Some (if selectedAnswer k = answer q then Correct else Incorrect)"
    and qi: "questionIndex s1 = questionIndex s" and gs: "gameState s1 = gameState s"
    and ks: "kicks s1 = (kicks s)[i := k']"
    using assms(4,5) by (simp_all add: s1 finishKick_def)
  have ki: "i < length (kicks s1)" "kicks s1 ! i = k'" "stage k' = Landed"
    "capturedIndex k' = questionIndex s"
    using assms(1,6) by (simp_all add: ks k'_def)
  have nxt: "\<exists>s2. afterFeedback e i s1 = Some s2 \<and> questionIndex s2 = questionIndex s + 1
                   \<and> currentQuestion s2 = Some q' \<and> gameState s2 = gameState s
                   \<and> score s2 = score s1"
    if "questionIndex s < QUESTION_COUNT - 1" "newQuestion e = Some q'" for q'
    using that ki qi gs by (simp add: afterFeedback_def Let_def generateQuestion_eq)
  have fin: "\<exists>s2. afterFeedback e i s1 = Some s2 \<and> gameState s2 = Finished
                \<and> questionIndex s2 = questionIndex s \<and> score s2 = score s1"
    if "QUESTION_COUNT - 1 \<le> questionIndex s"
    using that ki qi by (simp add: afterFeedback_def Let_def)
  show ?thesis
    using sc fb nxt fin by simp
qed

lemma kick_resolution_example:
  "score (animateBall 0 800 flyingGame) = score flyingGame + 1
   \<and> feedback (animateBall 0 800 flyingGame) = Some Correct
   \<and> (\<exists>s2. afterFeedback exampleEntropy 0 (animateBall 0 800 flyingGame) = Some s2
          \<and> questionIndex s2 = questionIndex flyingGame + 1
          \<and> currentQuestion s2 = Some exampleQuestion
          \<and> gameState s2 = gameState flyingGame
          \<and> score s2 = score (animateBall 0 800 flyingGame))
   \<and> score (animateBall 0 800 lastMissGame) = score lastMissGame
   \<and> feedback (animateBall 0 800 lastMissGame) = Some Incorrect
   \<and> (\<exists>s2. afterFeedback exampleEntropy 0 (animateBall 0 800 lastMissGame) = Some s2
          \<and> gameState s2 = Finished
          \<and> questionIndex s2 = questionIndex lastMissGame
          \<and> score s2 = score (animateBall 0 800 lastMissGame))"
proof -
  have h: "0 < length (kicks flyingGame)" "kicks flyingGame ! 0 = exampleKick"
    "stage exampleKick = Flying" "currentQuestion flyingGame = Some exampleQuestion"
    "capturedQuestion exampleKick = currentQuestion flyingGame"
    "capturedIndex exampleKick = questionIndex flyingGame"
    "ANIMATION_DURATION \<le> 800"
    "animateBall 0 800 flyingGame = animateBall 0 800 flyingGame"
    by (simp_all add: flyingGame_def exampleKick_def playingGame_def initialGame_def
        ANIMATION_DURATION_def)
  have g: "0 < length (kicks lastMissGame)" "kicks lastMissGame ! 0 = missKick"
    "stage missKick = Flying" "currentQuestion lastMissGame = Some exampleQuestion"
    "capturedQuestion missKick = currentQuestion lastMissGame"
    "capturedIndex missKick = questionIndex lastMissGame"
    "ANIMATION_DURATION \<le> 800"
    "animateBall 0 800 lastMissGame = animateBall 0 800 lastMissGame"
    by (simp_all add: lastMissGame_def missKick_def flyingGame_def exampleKick_def
        playingGame_def initialGame_def ANIMATION_DURATION_def)
  have v: "selectedAnswer exampleKick = answer exampleQuestion"
    "questionIndex flyingGame < QUESTION_COUNT - 1"
    "newQuestion exampleEntropy = Some exampleQuestion"
    by (simp_all add: exampleKick_def exampleQuestion_def flyingGame_def playingGame_def
        initialGame_def QUESTION_COUNT_def newQuestion_example)
  have w: "selectedAnswer missKick \<noteq> answer exampleQuestion"
    "QUESTION_COUNT - 1 \<le> questionIndex lastMissGame"
    by (simp_all add: missKick_def exampleKick_def exampleQuestion_def lastMissGame_def
        QUESTION_COUNT_def)
  show ?thesis
    using kick_resolution_when_current[OF h, of exampleEntropy]
      kick_resolution_when_current[OF g, of exampleEntropy] v w
    by blast
qed

section \<open>Restart\<close>

text \<open>
  Claim C9. \<^verbatim>\<open>resetRound\<close> sets the score, the question index and the elapsed
  seconds to 0, installs the question generated from fresh draws and sets the phase to
  \<open>Playing\<close>; and an event that takes the component out of the phase \<open>Finished\<close> is a
  call of \<^verbatim>\<open>resetRound\<close>.
\<close>

theorem resetRound_restart:
  "(\<forall>q. newQuestion e = Some q \<longrightarrow>
      (\<exists>s'. resetRound e s = Some s' \<and> score s' = 0 \<and> questionIndex s' = 0
          \<and> elapsedSeconds s' = 0 \<and> currentQuestion s' = Some q \<and> gameState s' = Playing))
   \<and> (\<forall>ev s'. gameState s = Finished \<and> step ev s = Some s' \<and> gameState s' \<noteq> Finished
        \<longrightarrow> (\<exists>e'. ev = ResetRound e' \<and> gameState s' = Playing))"
proof -
  have a: "\<exists>s'. resetRound e s = Some s' \<and> score s' = 0 \<and> questionIndex s' = 0
          \<and> elapsedSeconds s' = 0 \<and> currentQuestion s' = Some q \<and> gameState s' = Playing"
    if "newQuestion e = Some q" for q
    using that by (simp add: resetRound_def generateQuestion_eq)
  have b: "\<exists>e'. ev = ResetRound e' \<and> gameState s' = Playing"
    if "gameState s = Finished" "step ev s = Some s'" "gameState s' \<noteq> Finished" for ev s'
    using that
    by (cases ev)
       (auto simp: handleKeyDown_def handleKeyUp_def chargeTick_def kickTimer_def animateBall_def
          finishKick_def afterFeedback_def togglePause_def openHelp_def closeHelp_def
          resetRound_def generateQuestion_def secondTick_def Let_def
          split: if_splits option.splits)
  show ?thesis using a b by blast
qed

theorem resetRound_restart_witness:
  "\<exists>s'. step (ResetRound exampleEntropy) finishedGame = Some s'
      \<and> gameState finishedGame = Finished \<and> score finishedGame = 7
      \<and> score s' = 0 \<and> questionIndex s' = 0 \<and> elapsedSeconds s' = 0
      \<and> currentQuestion s' = Some exampleQuestion \<and> gameState s' = Playing"
proof -
  have f: "gameState finishedGame = Finished" "score finishedGame = 7"
    by (simp_all add: finishedGame_def)
  from resetRound_restart[of exampleEntropy finishedGame] newQuestion_example
  obtain s' where "resetRound exampleEntropy finishedGame = Some s'" "score s' = 0"
    "questionIndex s' = 0" "elapsedSeconds s' = 0" "currentQuestion s' = Some exampleQuestion"
    "gameState s' = Playing"
    by blast
  with f show ?thesis by simp
qed

section \<open>Input while a kick is pending, and pausing\<close>

text \<open>
  The three input handlers leave the state as it is while \<^verbatim>\<open>isKicking\<close> is set,
  while the round is paused, and outside the phase \<open>Playing\<close>.
\<close>

lemma handleAnswer_ignored:
  "isKicking s \<or> isPaused s \<or> gameState s \<noteq> Playing \<Longrightarrow> handleAnswer a i s = s"
  by (simp add: handleAnswer_def)

lemma handleKeyDown_ignored:
  "isKicking s \<or> isPaused s \<or> gameState s \<noteq> Playing \<Longrightarrow> handleKeyDown s = s"
  by (auto simp: handleKeyDown_def)

lemma handleKeyUp_ignored:
  "isKicking s \<or> isPaused s \<or> gameState s \<noteq> Playing \<Longrightarrow> handleKeyUp s = s"
  by (auto simp: handleKeyUp_def)

lemmas game_defs = handleKeyDown_def handleKeyUp_def handleAnswer_def chargeTick_def
  kickTimer_def animateBall_def finishKick_def afterFeedback_def togglePause_def
  openHelp_def closeHelp_def resetRound_def generateQuestion_def secondTick_def
  startGame_def Let_def progress_def ANIMATION_DURATION_def QUESTION_COUNT_def
  newQuestion_example playingGame_def initialGame_def exampleQuestion_def ballAt_def

text \<open>
  Claim C4 asks that the power does not advance while the round is paused during a hold,
  and that resuming does not apply the paused time afterwards. \<^verbatim>\<open>togglePause\<close>
  leaves the charge interval running and its callback does not look at
  \<^verbatim>\<open>isPaused\<close>: in \<open>pausedHoldTrace\<close> the power goes from 0 to 4 while the round
  is paused, and in \<open>pausedReleaseTrace\<close> the nine ticks of the pause decide the tier of
  the kick released after resuming (power 36, index 1).
\<close>

theorem charge_advances_while_paused:
  "map_option (\<lambda>s. (isPaused s, kickPower s)) (run (butlast pausedHoldTrace) playingGame)
     = Some (True, 0)
   \<and> map_option (\<lambda>s. (isPaused s, kickPower s)) (run pausedHoldTrace playingGame)
     = Some (True, 4)
   \<and> map_option (\<lambda>s. map kIndex (kicks s)) (run pausedReleaseTrace playingGame) = Some [1]"
  by (simp add: pausedHoldTrace_def pausedReleaseTrace_def game_defs)

text \<open>
  Claim C5 asks that at most one kick animation is ever in flight. \<^verbatim>\<open>resetRound\<close>
  clears \<^verbatim>\<open>isKicking\<close> but cancels neither the timers nor the animation frames of
  a kick that is under way, so the next key release launches a second kick: after
  \<open>doubleKickTrace\<close>, and after \<open>relayKickTrace\<close>, two kicks are in the air.
\<close>

theorem two_kicks_in_flight:
  "map_option (\<lambda>s. map stage (kicks s)) (run doubleKickTrace playingGame)
     = Some [Flying, Flying]
   \<and> map_option (\<lambda>s. map stage (kicks s)) (run relayKickTrace playingGame)
     = Some [Flying, Flying]"
  by (simp add: doubleKickTrace_def relayKickTrace_def game_defs)

text \<open>
  Claim C3 asks that a kick scores exactly when the selected value equals the answer of
  the current question, and that the round ends when the question index has reached its
  bound. The callbacks of a kick compare with the question, and test the index, of the
  render in which the kick was launched, and \<^verbatim>\<open>resetRound\<close> does not cancel them.
  In \<open>staleAnswerTrace\<close> the reset brings the question 6 + 6 while the ball is in the
  air: the selected value 7 is not the answer 12, and the kick lands as \<open>Correct\<close> with
  the score going from 0 to 1. In \<open>overScoreTrace\<close> the question index has passed 9
  and the phase is still \<open>Playing\<close>.
\<close>

theorem stale_kick_scored_on_new_question:
  "map_option (\<lambda>s. (map_option answer (currentQuestion s), map selectedAnswer (kicks s),
        feedback s, score s)) (run (butlast staleAnswerTrace) playingGame)
     = Some (Some 12, [7], None, 0)
   \<and> map_option (\<lambda>s. (map_option answer (currentQuestion s), map selectedAnswer (kicks s),
        feedback s, score s)) (run staleAnswerTrace playingGame)
     = Some (Some 12, [7], Some Correct, 1)
   \<and> map_option (\<lambda>s. (gameState s, questionIndex s)) (run overScoreTrace playingGame)
     = Some (Playing, 10)"
  by (simp add: staleAnswerTrace_def overScoreTrace_def pipelineRound_def doubleKickTrace_def
      game_defs newQuestion_other otherQuestion_def)

text \<open>
  Claim C7 asks that the score never exceeds 10 nor the number of resolved questions.
  A kick that lands after a reset is counted in the new round (\<open>staleKickTrace\<close>:
  score 1 on question 0, which nobody answered). With two kicks pending in turn, each
  1500 ms timer tests the question index of the render in which its kick was launched:
  the index passes 9 without the round ending, and twelve correct kicks are counted
  before the phase becomes \<open>Finished\<close> (\<open>overScoreTrace\<close>).
\<close>

theorem score_exceeds_question_count:
  "map_option (\<lambda>s. (gameState s, score s, questionIndex s)) (run staleKickTrace playingGame)
     = Some (Playing, 1, 0)
   \<and> map_option (\<lambda>s. (gameState s, score s, questionIndex s)) (run overScoreTrace playingGame)
     = Some (Playing, 12, 10)
   \<and> map_option (\<lambda>s. (gameState s, score s, questionIndex s))
       (run (overScoreTrace @ [AfterFeedback exampleEntropy 0]) playingGame)
     = Some (Finished, 12, 10)"
  by (simp add: staleKickTrace_def overScoreTrace_def pipelineRound_def doubleKickTrace_def
      game_defs)

text \<open>
  A round of ten kicks, each resolved before the next, ends in the phase \<open>Finished\<close>.
\<close>

lemma full_round_finishes:
  "map_option (\<lambda>s. (gameState s, score s, questionIndex s, kicks s))
     (run fullRoundTrace playingGame) = Some (Finished, 10, 9, [])"
  by (simp add: fullRoundTrace_def normalKick_def game_defs)

text \<open>
  What holds in every execution that resets the round only while no kick is pending:
  at most one kick is pending, and the score stays between 0 and \<open>QUESTION_COUNT\<close>.
\<close>

lemma generateQuestion_SomeD:
  "generateQuestion e s = Some s' \<Longrightarrow>
   \<exists>q. s' = s\<lparr>currentQuestion := Some q, ballPosition := (12, 58), feedback := None,
                isKicking := False, kickerFrame := 1, showKicker := True\<rparr>"
  by (cases "newQuestion e") (auto simp: generateQuestion_def)

lemma orderly_kicks_cases:
  "orderly s \<Longrightarrow> kicks s = [] \<or> (\<exists>k. kicks s = [k])"
  by (auto simp: orderly_def split: list.splits)

lemma orderly_idle: "orderly s \<Longrightarrow> \<not> isKicking s \<Longrightarrow> kicks s = []"
  by (auto simp: orderly_def split: list.splits)

lemma orderly_handleKeyDown: "orderly s \<Longrightarrow> orderly (handleKeyDown s)"
  by (auto simp: orderly_def handleKeyDown_def split: list.splits)

lemma orderly_chargeTick: "orderly s \<Longrightarrow> orderly (chargeTick s)"
  by (auto simp: orderly_def chargeTick_def Let_def split: list.splits)

lemma orderly_handleKeyUp:
  assumes "orderly s"
  shows "orderly (handleKeyUp s)"
proof (cases "\<not> isKicking s \<and> \<not> isPaused s \<and> gameState s = Playing")
  case False
  with assms show ?thesis by (auto simp: handleKeyUp_def)
next
  case True
  with assms have "kicks s = []" by (simp add: orderly_idle)
  with assms True show ?thesis
    by (cases "currentQuestion s")
       (simp_all add: orderly_def handleKeyUp_def handleAnswer_def Let_def)
qed

lemma orderly_kickTimer:
  assumes "orderly s"
  shows "orderly (kickTimer i s)"
  using orderly_kicks_cases[OF assms]
proof
  assume "kicks s = []"
  with assms show ?thesis by (simp add: kickTimer_def)
next
  assume "\<exists>k. kicks s = [k]"
  then obtain k where "kicks s = [k]" ..
  with assms show ?thesis by (cases i) (auto simp: orderly_def kickTimer_def)
qed

lemma orderly_animateBall:
  assumes "orderly s"
  shows "orderly (animateBall i el s)"
  using orderly_kicks_cases[OF assms]
proof
  assume "kicks s = []"
  with assms show ?thesis by (simp add: animateBall_def)
next
  assume "\<exists>k. kicks s = [k]"
  then obtain k where "kicks s = [k]" ..
  with assms show ?thesis
    by (cases i) (auto simp: orderly_def animateBall_def finishKick_def Let_def)
qed

lemma orderly_afterFeedback:
  assumes "orderly s" "afterFeedback e i s = Some s'"
  shows "orderly s'"
  using orderly_kicks_cases[OF assms(1)]
proof
  assume "kicks s = []"
  with assms show ?thesis by (simp add: afterFeedback_def)
next
  assume "\<exists>k. kicks s = [k]"
  then obtain k where k: "kicks s = [k]" ..
  show ?thesis
  proof (cases "i < length (kicks s) \<and> stage (kicks s ! i) = Landed")
    case False
    with assms show ?thesis by (simp add: afterFeedback_def)
  next
    case True
    with k have i: "i = 0" by simp
    with True k have st: "stage k = Landed" by simp
    show ?thesis
    proof (cases "capturedIndex k < QUESTION_COUNT - 1")
      case True
      with assms(2) k i st
      have "generateQuestion e (s\<lparr>kicks := [], questionIndex := questionIndex s + 1\<rparr>) = Some s'"
        by (simp add: afterFeedback_def Let_def)
      from generateQuestion_SomeD[OF this] obtain q where
        "s' = s\<lparr>kicks := [], questionIndex := questionIndex s + 1, currentQuestion := Some q,
                ballPosition := (12, 58), feedback := None, isKicking := False,
                kickerFrame := 1, showKicker := True\<rparr>" by auto
      with assms(1) k st True show ?thesis
        by (simp add: orderly_def)
    next
      case False
      with assms(2) k i st
      have "s' = s\<lparr>kicks := [], gameState := Finished, isPaused := True\<rparr>"
        by (simp add: afterFeedback_def Let_def)
      with assms(1) k st False show ?thesis
        by (simp add: orderly_def)
    qed
  qed
qed

lemma orderly_menu: "orderly s \<Longrightarrow> gameState s = Menu \<Longrightarrow> kicks s = []"
  by (auto simp: orderly_def split: list.splits)

lemma orderly_closeHelp:
  assumes "orderly s" "closeHelp e s = Some s'"
  shows "orderly s'"
proof (cases "gameState s = Menu")
  case True
  with assms(2) obtain s1 where
    g: "generateQuestion e (s\<lparr>showHelp := False, gameState := Playing, score := 0,
          questionIndex := 0, elapsedSeconds := 0\<rparr>) = Some s1"
    and s': "s' = s1\<lparr>isPaused := False, showHelp := False, showSidebar := False\<rparr>"
    by (auto simp: closeHelp_def startGame_def split: option.splits)
  from generateQuestion_SomeD[OF g] obtain q where "s1 = s\<lparr>showHelp := False, gameState := Playing, score := 0,
          questionIndex := 0, elapsedSeconds := 0, currentQuestion := Some q, ballPosition := (12, 58), feedback := None,
                isKicking := False, kickerFrame := 1, showKicker := True\<rparr>" by auto
  with s' orderly_menu[OF assms(1) True] show ?thesis
    by (simp add: orderly_def QUESTION_COUNT_def)
next
  case False
  with assms show ?thesis by (auto simp: closeHelp_def orderly_def split: list.splits)
qed

lemma orderly_resetRound:
  assumes "kicks s = []" "resetRound e s = Some s'"
  shows "orderly s'"
proof -
  from assms(2) obtain s1 where
    g: "generateQuestion e (s\<lparr>gameState := Playing, score := 0, questionIndex := 0,
                 elapsedSeconds := 0, feedback := None, isKicking := False,
                 kickerFrame := 1, showKicker := True, ballPosition := (12, 58)\<rparr>) = Some s1"
    and s': "s' = s1\<lparr>isPaused := False, showSidebar := False, kickPower := 0\<rparr>"
    by (auto simp: resetRound_def split: option.splits)
  from generateQuestion_SomeD[OF g] obtain q where "s1 = s\<lparr>gameState := Playing, score := 0, questionIndex := 0,
                 elapsedSeconds := 0, feedback := None, isKicking := False,
                 kickerFrame := 1, showKicker := True, ballPosition := (12, 58), currentQuestion := Some q, ballPosition := (12, 58), feedback := None,
                isKicking := False, kickerFrame := 1, showKicker := True\<rparr>" by auto
  with s' assms(1) show ?thesis
    by (simp add: orderly_def QUESTION_COUNT_def)
qed

lemma orderly_others:
  "orderly s \<Longrightarrow> orderly (togglePause s)"
  "orderly s \<Longrightarrow> orderly (openHelp s)"
  "orderly s \<Longrightarrow> orderly (secondTick s)"
  by (auto simp: orderly_def togglePause_def openHelp_def secondTick_def Let_def
      split: list.splits)

lemma orderly_step:
  assumes "orderly s" "step ev s = Some s'" "isReset ev \<longrightarrow> kicks s = []"
  shows "orderly s'"
proof (cases ev)
  case (AfterFeedback e i)
  with assms show ?thesis by (auto intro: orderly_afterFeedback)
next
  case (CloseHelp e)
  with assms show ?thesis by (auto intro: orderly_closeHelp)
next
  case (ResetRound e)
  with assms show ?thesis by (auto intro: orderly_resetRound)
qed (use assms in \<open>auto simp: orderly_chargeTick orderly_handleKeyDown orderly_handleKeyUp
      orderly_kickTimer orderly_animateBall orderly_others\<close>)

lemma orderly_run:
  "orderly s \<Longrightarrow> resetsWhenIdle evs s \<Longrightarrow> run evs s = Some s' \<Longrightarrow> orderly s'"
proof (induction evs arbitrary: s)
  case Nil
  then show ?case by simp
next
  case (Cons ev evs)
  from Cons.prems(3) obtain s1 where s1: "step ev s = Some s1" "run evs s1 = Some s'"
    by (auto split: option.splits)
  from Cons.prems(2) s1 have r: "isReset ev \<longrightarrow> kicks s = []" "resetsWhenIdle evs s1"
    by simp_all
  from orderly_step[OF Cons.prems(1) s1(1) r(1)] have "orderly s1" .
  from Cons.IH[OF this r(2) s1(2)] show ?case .
qed

lemma orderly_bounds:
  "orderly s \<Longrightarrow> 0 \<le> score s \<and> score s \<le> QUESTION_COUNT \<and> length (kicks s) \<le> 1"
  by (auto simp: orderly_def QUESTION_COUNT_def split: if_splits list.splits)

lemma orderly_mount: "mount e = Some s \<Longrightarrow> orderly s"
  by (auto simp: mount_def initialGame_def orderly_def QUESTION_COUNT_def split: option.splits
      dest!: generateQuestion_SomeD)

end
